theory Spec2Isabelle
  imports
    Main
    "HOL-Library.Multiset"
    "HOL-Library.Char_ord"
    "HOL-Library.List_Lexorder"
    "HOL-Library.Product_Lexorder"
begin


section \<open>nomad-task-updates: data model\<close>

text \<open>
  The program (\<^verbatim>\<open>main.go\<close>) reads a configuration of watched images, asks each
  registry for the tags of every watched image, filters and parses them, lists the
  running docker tasks of a Nomad cluster and prints, for every task whose image is
  watched, the newest tag and whether it is newer than the running one.

  Everything the program imports from other modules is a parameter of the model:
  \<^item> \<open>'r\<close> is a compiled regular expression and \<open>m :: 'r \<Rightarrow> string \<Rightarrow> bool\<close> is
    \<^verbatim>\<open>(*regexp.Regexp).MatchString\<close>;
  \<^item> \<open>'v\<close> is a parsed (non-nil) \<^verbatim>\<open>*version.Version\<close>,
    \<open>newVersion :: string \<Rightarrow> 'e + 'v\<close> is \<^verbatim>\<open>version.NewVersion\<close>,
    \<open>cmp :: 'v \<Rightarrow> 'v \<Rightarrow> int\<close> is \<^verbatim>\<open>(*Version).Compare\<close> and
    \<open>str :: 'v \<Rightarrow> string\<close> is \<^verbatim>\<open>(*Version).String\<close>;
  \<^item> \<open>'e\<close> is an error value of one of those modules.
  A Go string is a byte sequence and is compared bytewise, as \<^typ>\<open>string\<close> is here.
\<close>

record 'r WatchedImage =
  Name :: string
  Include :: "'r list"
  Exclude :: "'r list"

record 'r Config =
  Server :: string
  Namespaces :: "string list"
  Images :: "'r WatchedImage list"

text \<open>
  \<^verbatim>\<open>reference.NamedTagged\<close>: the program reads a reference through its methods
  \<^verbatim>\<open>Name()\<close> and \<^verbatim>\<open>Tag()\<close> only.
\<close>

record NamedTagged =
  RefName :: string
  RefTag :: string

record Instance =
  Namespace :: string
  Job :: string
  Group :: string
  Task :: string
  Image_ref :: NamedTagged

section \<open>Tag filter\<close>

fun isIncluded_loop :: "('r \<Rightarrow> string \<Rightarrow> bool) \<Rightarrow> string \<Rightarrow> 'r list \<Rightarrow> bool" where
  "isIncluded_loop m s [] = False"
| "isIncluded_loop m s (include # includes) =
     (if m include s then True else isIncluded_loop m s includes)"

definition isIncluded :: "('r \<Rightarrow> string \<Rightarrow> bool) \<Rightarrow> string \<Rightarrow> 'r list \<Rightarrow> bool" where
  "isIncluded m s includes =
     (if length includes = 0 then True else isIncluded_loop m s includes)"

fun isExcluded_loop :: "('r \<Rightarrow> string \<Rightarrow> bool) \<Rightarrow> string \<Rightarrow> 'r list \<Rightarrow> bool" where
  "isExcluded_loop m s [] = False"
| "isExcluded_loop m s (exclude # excludes) =
     (if m exclude s then True else isExcluded_loop m s excludes)"

definition isExcluded :: "('r \<Rightarrow> string \<Rightarrow> bool) \<Rightarrow> string \<Rightarrow> 'r list \<Rightarrow> bool" where
  "isExcluded m s excludes =
     (if length excludes = 0 then False else isExcluded_loop m s excludes)"

text \<open>
  The loop of \<^verbatim>\<open>filterTags\<close>; \<open>filtered\<close> is the slice built so far, and
  \<^verbatim>\<open>append\<close> adds at its end.
\<close>

fun filterTags_loop ::
  "('r \<Rightarrow> string \<Rightarrow> bool) \<Rightarrow> 'r list \<Rightarrow> 'r list \<Rightarrow> string list \<Rightarrow> string list \<Rightarrow> string list"
where
  "filterTags_loop m include exclude filtered [] = filtered"
| "filterTags_loop m include exclude filtered (tag # tags) =
     (if \<not> isIncluded m tag include then filterTags_loop m include exclude filtered tags
      else if isExcluded m tag exclude then filterTags_loop m include exclude filtered tags
      else filterTags_loop m include exclude (filtered @ [tag]) tags)"

definition filterTags ::
  "('r \<Rightarrow> string \<Rightarrow> bool) \<Rightarrow> string list \<Rightarrow> 'r list \<Rightarrow> 'r list \<Rightarrow> string list"
where
  "filterTags m tags include exclude = filterTags_loop m include exclude [] tags"

text \<open>
  The filter policy in the specification's words: a tag passes inclusion when the
  include set is empty or one include matcher matches it, and a tag that passed is
  dropped when an exclude matcher matches it.
\<close>

definition passes :: "('r \<Rightarrow> string \<Rightarrow> bool) \<Rightarrow> 'r list \<Rightarrow> 'r list \<Rightarrow> string \<Rightarrow> bool" where
  "passes m include exclude tag \<longleftrightarrow>
     (include = [] \<or> (\<exists>i \<in> set include. m i tag)) \<and> \<not> (\<exists>x \<in> set exclude. m x tag)"

text \<open>
  For the concrete runs below: \<^verbatim>\<open>MatchString\<close> is unanchored, so a pattern without
  metacharacters matches exactly the strings that contain it.
\<close>

fun containsLiteral :: "string \<Rightarrow> string \<Rightarrow> bool" where
  "containsLiteral p [] = (p = [])"
| "containsLiteral p (c # s) = (take (length p) (c # s) = p \<or> containsLiteral p s)"

section \<open>Errors and outcomes\<close>

text \<open>
  An error of the program is either an error of an imported module passed on unchanged,
  or the wrapped error that \<^verbatim>\<open>getImageVersionMapping\<close> builds with
  \<^verbatim>\<open>fmt.Errorf("couldn't parse image tag version for %s: %w", imageName, err)\<close>.
\<close>

datatype 'e error = External 'e | CouldntParseTag string 'e

text \<open>
  A call returns its value with a nil error (\<open>Returned\<close>), returns a non-nil error and
  no value (\<open>Failed\<close>), or panics (\<open>Panicked\<close>).
\<close>

datatype ('e, 'a) outcome = Returned 'a | Failed "'e error" | Panicked

section \<open>Newest version\<close>

text \<open>\<^verbatim>\<open>func (v *Version) GreaterThan(o *Version) bool { return v.Compare(o) > 0 }\<close>\<close>

definition GreaterThan :: "('v \<Rightarrow> 'v \<Rightarrow> int) \<Rightarrow> 'v \<Rightarrow> 'v \<Rightarrow> bool" where
  "GreaterThan cmp v o' \<longleftrightarrow> cmp v o' > 0"

text \<open>
  \<^verbatim>\<open>getNewestVersion\<close> returns a pointer, which is nil (\<open>None\<close>) when the loop body
  never runs. Iteration 0 stores the first element; the later iterations are
  \<open>getNewestVersion_loop\<close>.
\<close>

fun getNewestVersion_loop :: "('v \<Rightarrow> 'v \<Rightarrow> int) \<Rightarrow> 'v \<Rightarrow> 'v list \<Rightarrow> 'v" where
  "getNewestVersion_loop cmp newestVersion [] = newestVersion"
| "getNewestVersion_loop cmp newestVersion (v # versions) =
     (if GreaterThan cmp v newestVersion then getNewestVersion_loop cmp v versions
      else getNewestVersion_loop cmp newestVersion versions)"

definition getNewestVersion :: "('v \<Rightarrow> 'v \<Rightarrow> int) \<Rightarrow> 'v list \<Rightarrow> 'v option" where
  "getNewestVersion cmp versions =
     (case versions of [] \<Rightarrow> None | v # rest \<Rightarrow> Some (getNewestVersion_loop cmp v rest))"

text \<open>
  What the properties below need of the comparison: the two directions of a
  comparison agree, and ``greater or equal'' is transitive. Distinct versions may
  compare equal, as \<^verbatim>\<open>1.0.0\<close> and \<^verbatim>\<open>1.0.0.0\<close> do.
\<close>

definition weak_order :: "('v \<Rightarrow> 'v \<Rightarrow> int) \<Rightarrow> bool" where
  "weak_order cmp \<longleftrightarrow>
     (\<forall>a b. cmp a b > 0 \<longleftrightarrow> cmp b a < 0) \<and>
     (\<forall>a b c. cmp a b \<ge> 0 \<and> cmp b c \<ge> 0 \<longrightarrow> cmp a c \<ge> 0)"

section \<open>Resolving the watched images\<close>

text \<open>
  \<open>listTags\<close> stands for the registry call of \<^verbatim>\<open>getTags\<close> (repository name, transport,
  GET of the tag list, status check, JSON decoding): the tags of the response, or the
  error of the first step that fails.
\<close>

definition getTags ::
  "(string \<Rightarrow> 'e + string list) \<Rightarrow> ('r \<Rightarrow> string \<Rightarrow> bool) \<Rightarrow> 'r WatchedImage \<Rightarrow> 'e + string list"
where
  "getTags listTags m watched =
     (case listTags (Name watched) of
        Inl err \<Rightarrow> Inl err
      | Inr tags \<Rightarrow> Inr (filterTags m tags (Include watched) (Exclude watched)))"

text \<open>
  The order in which goroutines finish, and the order in which \<^verbatim>\<open>range\<close> visits a
  map, are not fixed by the program. A chooser \<open>pick\<close> names the position of the next
  element among those still pending; every order is the result of some chooser.
\<close>

definition pick_out :: "('a list \<Rightarrow> nat) \<Rightarrow> 'a list \<Rightarrow> 'a \<times> 'a list" where
  "pick_out pick pending =
     (let k = pick pending mod length pending
      in (pending ! k, take k pending @ drop (Suc k) pending))"

text \<open>
  A Go map is kept as an association list with distinct keys; \<open>assign\<close> is
  \<^verbatim>\<open>m[k] = v\<close>.
\<close>

fun assign :: "'k \<Rightarrow> 'a \<Rightarrow> ('k \<times> 'a) list \<Rightarrow> ('k \<times> 'a) list" where
  "assign k v [] = [(k, v)]"
| "assign k v (p # ps) = (if fst p = k then (k, v) # ps else p # assign k v ps)"

text \<open>
  The goroutines of \<^verbatim>\<open>getImageTagMapping\<close>, in the order they finish. The group keeps
  the first error and \<^verbatim>\<open>Wait\<close> returns it; what the other goroutines do afterwards is
  not observed, since the map is dropped.
\<close>

function getImageTagMapping_tasks ::
  "('r WatchedImage list \<Rightarrow> nat) \<Rightarrow> (string \<Rightarrow> 'e + string list) \<Rightarrow> ('r \<Rightarrow> string \<Rightarrow> bool) \<Rightarrow>
   'r WatchedImage list \<Rightarrow> (string \<times> string list) list \<Rightarrow> ('e, (string \<times> string list) list) outcome"
where
  "getImageTagMapping_tasks finish listTags m pending imageTags =
     (if pending = [] then Returned imageTags
      else case pick_out finish pending of (watch, rest) \<Rightarrow>
        (case getTags listTags m watch of
           Inl err \<Rightarrow> Failed (External err)
         | Inr tags \<Rightarrow>
             getImageTagMapping_tasks finish listTags m rest (assign (Name watch) tags imageTags)))"
  by pat_completeness auto
termination
proof (relation "measure (\<lambda>(finish, listTags, m, pending, imageTags). length pending)")
  fix finish :: "'r WatchedImage list \<Rightarrow> nat" and pending :: "'r WatchedImage list"
    and watch rest
  assume "pending \<noteq> []" and "(watch, rest) = pick_out finish pending"
  then have "finish pending mod length pending < length pending"
    and "rest = take (finish pending mod length pending) pending
           @ drop (Suc (finish pending mod length pending)) pending"
    by (simp_all add: pick_out_def Let_def)
  then have "length rest < length pending"
    by simp
  then show "((finish, listTags, m, rest, assign (Name watch) tags imageTags),
              (finish, listTags, m, pending, imageTags))
             \<in> measure (\<lambda>(finish, listTags, m, pending, imageTags). length pending)"
    for listTags :: "string \<Rightarrow> 'e + string list" and m :: "'r \<Rightarrow> string \<Rightarrow> bool"
      and tags imageTags
    by simp
qed simp

declare getImageTagMapping_tasks.simps [simp del]

definition getImageTagMapping ::
  "('r WatchedImage list \<Rightarrow> nat) \<Rightarrow> (string \<Rightarrow> 'e + string list) \<Rightarrow> ('r \<Rightarrow> string \<Rightarrow> bool) \<Rightarrow>
   'r WatchedImage list \<Rightarrow> ('e, (string \<times> string list) list) outcome"
where
  "getImageTagMapping finish listTags m images =
     getImageTagMapping_tasks finish listTags m images []"

text \<open>The inner loop of \<^verbatim>\<open>getImageVersionMapping\<close>: the tags of one image.\<close>

fun parseTags ::
  "(string \<Rightarrow> 'e + 'v) \<Rightarrow> string \<Rightarrow> 'v list \<Rightarrow> string list \<Rightarrow> 'e error + 'v list"
where
  "parseTags newVersion imageName vers [] = Inr vers"
| "parseTags newVersion imageName vers (tagStr # tags) =
     (case newVersion tagStr of
        Inl err \<Rightarrow> Inl (CouldntParseTag imageName err)
      | Inr ver \<Rightarrow> parseTags newVersion imageName (vers @ [ver]) tags)"

function getImageVersionMapping_loop ::
  "((string \<times> string list) list \<Rightarrow> nat) \<Rightarrow> (string \<Rightarrow> 'e + 'v) \<Rightarrow>
   (string \<times> string list) list \<Rightarrow> (string \<rightharpoonup> 'v list) \<Rightarrow> ('e, string \<rightharpoonup> 'v list) outcome"
where
  "getImageVersionMapping_loop visit newVersion pending parsedImageTags =
     (if pending = [] then Returned parsedImageTags
      else case pick_out visit pending of ((imageName, tags), rest) \<Rightarrow>
        (case parseTags newVersion imageName [] tags of
           Inl err \<Rightarrow> Failed err
         | Inr vers \<Rightarrow>
             getImageVersionMapping_loop visit newVersion rest (parsedImageTags(imageName \<mapsto> vers))))"
  by pat_completeness auto
termination
proof (relation "measure (\<lambda>(visit, newVersion, pending, parsedImageTags). length pending)")
  fix visit :: "(string \<times> string list) list \<Rightarrow> nat" and pending :: "(string \<times> string list) list"
    and entry rest
  assume "pending \<noteq> []" and "(entry, rest) = pick_out visit pending"
  then have "visit pending mod length pending < length pending"
    and "rest = take (visit pending mod length pending) pending
           @ drop (Suc (visit pending mod length pending)) pending"
    by (simp_all add: pick_out_def Let_def)
  then have "length rest < length pending"
    by simp
  then show "((visit, newVersion, rest, parsedImageTags(imageName \<mapsto> vers)),
              (visit, newVersion, pending, parsedImageTags))
             \<in> measure (\<lambda>(visit, newVersion, pending, parsedImageTags). length pending)"
    for newVersion :: "string \<Rightarrow> 'e + 'v" and parsedImageTags imageName vers
    by simp
qed simp

declare getImageVersionMapping_loop.simps [simp del]

definition getImageVersionMapping ::
  "('r WatchedImage list \<Rightarrow> nat) \<Rightarrow> ((string \<times> string list) list \<Rightarrow> nat) \<Rightarrow>
   (string \<Rightarrow> 'e + string list) \<Rightarrow> ('r \<Rightarrow> string \<Rightarrow> bool) \<Rightarrow> (string \<Rightarrow> 'e + 'v) \<Rightarrow>
   'r WatchedImage list \<Rightarrow> ('e, string \<rightharpoonup> 'v list) outcome"
where
  "getImageVersionMapping finish visit listTags m newVersion images =
     (case getImageTagMapping finish listTags m images of
        Failed err \<Rightarrow> Failed err
      | Panicked \<Rightarrow> Panicked
      | Returned imageTags \<Rightarrow> getImageVersionMapping_loop visit newVersion imageTags Map.empty)"

section \<open>Configuration\<close>

text \<open>
  \<open>normalizeName\<close> is \<^verbatim>\<open>reference.ParseNormalizedNamed\<close> followed by \<^verbatim>\<open>Name()\<close>. The loop of
  \<^verbatim>\<open>parseConfigFile\<close> overwrites the names one position after the other; \<open>done\<close> are
  the images already overwritten.
\<close>

fun parseConfigFile_loop ::
  "(string \<Rightarrow> 'e + string) \<Rightarrow> 'r WatchedImage list \<Rightarrow> 'r WatchedImage list \<Rightarrow> 'e + 'r WatchedImage list"
where
  "parseConfigFile_loop normalizeName done [] = Inr done"
| "parseConfigFile_loop normalizeName done (image' # images) =
     (case normalizeName (Name image') of
        Inl err \<Rightarrow> Inl err
      | Inr normName \<Rightarrow>
          parseConfigFile_loop normalizeName (done @ [image'\<lparr>Name := normName\<rparr>]) images)"

definition parseConfigFile ::
  "(string \<Rightarrow> 'e + 'r Config) \<Rightarrow> (string \<Rightarrow> 'e + string) \<Rightarrow> string \<Rightarrow> 'e + 'r Config"
where
  "parseConfigFile decodeFile normalizeName path =
     (case decodeFile path of
        Inl err \<Rightarrow> Inl err
      | Inr conf \<Rightarrow>
          (case parseConfigFile_loop normalizeName [] (Images conf) of
             Inl err \<Rightarrow> Inl err
           | Inr images \<Rightarrow> Inr (conf\<lparr>Images := images\<rparr>)))"

text \<open>
  A name \<open>canon\<close> is the canonical form of \<open>raw\<close> when normalizing \<open>raw\<close> gives \<open>canon\<close>
  and normalizing \<open>canon\<close> leaves it as it is.
\<close>

definition canonical_of :: "(string \<Rightarrow> 'e + string) \<Rightarrow> string \<Rightarrow> string \<Rightarrow> bool" where
  "canonical_of normalizeName raw canon \<longleftrightarrow> normalizeName raw = Inr canon \<and> normalizeName canon = Inr canon"

section \<open>Instances\<close>

text \<open>
  The comparison that \<^verbatim>\<open>sortInstances\<close> hands to \<^verbatim>\<open>sort.Slice\<close>, on the two elements
  at the positions it is called with.
\<close>

definition sortInstances_less :: "Instance \<Rightarrow> Instance \<Rightarrow> bool" where
  "sortInstances_less a b =
     (if Namespace a \<noteq> Namespace b then Namespace a > Namespace b
      else if Job a \<noteq> Job b then Job a > Job b
      else if Group a \<noteq> Group b then Group a > Group b
      else if Task a \<noteq> Task b then Task a > Task b
      else False)"

definition sortInstances ::
  "((Instance \<Rightarrow> Instance \<Rightarrow> bool) \<Rightarrow> Instance list \<Rightarrow> Instance list) \<Rightarrow> Instance list \<Rightarrow> Instance list"
where
  "sortInstances sortSlice instances = sortSlice sortInstances_less instances"

text \<open>
  What \<^verbatim>\<open>sort.Slice\<close> promises for a comparison \<open>less\<close>: the slice is rearranged, and
  afterwards no element is less than one before it. The sort is not stable.
\<close>

definition sorts_by :: "(('a \<Rightarrow> 'a \<Rightarrow> bool) \<Rightarrow> 'a list \<Rightarrow> 'a list) \<Rightarrow> ('a \<Rightarrow> 'a \<Rightarrow> bool) \<Rightarrow> bool" where
  "sorts_by sortSlice less' \<longleftrightarrow>
     (\<forall>xs. mset (sortSlice less' xs) = mset xs
         \<and> sorted_wrt (\<lambda>a b. \<not> less' b a) (sortSlice less' xs))"

text \<open>
  \<open>getInstances\<close> is \<^verbatim>\<open>getInstances\<close> with the client already given: the query of
  the scheduler for the docker tasks of one namespace. The properties below are about
  what is done with its result, so it is a parameter, and they hold whatever it
  returns.
\<close>

fun getAllInstances_loop ::
  "(string \<Rightarrow> ('e, Instance list) outcome) \<Rightarrow> Instance list \<Rightarrow> string list \<Rightarrow> ('e, Instance list) outcome"
where
  "getAllInstances_loop getInstances allInstances [] = Returned allInstances"
| "getAllInstances_loop getInstances allInstances (namespace # namespaces) =
     (case getInstances namespace of
        Failed err \<Rightarrow> Failed err
      | Panicked \<Rightarrow> Panicked
      | Returned instances \<Rightarrow>
          getAllInstances_loop getInstances (allInstances @ instances) namespaces)"

definition getAllInstances ::
  "((Instance \<Rightarrow> Instance \<Rightarrow> bool) \<Rightarrow> Instance list \<Rightarrow> Instance list) \<Rightarrow>
   (string \<Rightarrow> ('e, Instance list) outcome) \<Rightarrow> string list \<Rightarrow> ('e, Instance list) outcome"
where
  "getAllInstances sortSlice getInstances namespaces =
     (case getAllInstances_loop getInstances [] namespaces of
        Failed err \<Rightarrow> Failed err
      | Panicked \<Rightarrow> Panicked
      | Returned allInstances \<Rightarrow> Returned (sortInstances sortSlice allInstances))"

text \<open>The sort key in the specification's words, ordered lexicographically.\<close>

definition instance_key :: "Instance \<Rightarrow> string \<times> string \<times> string \<times> string" where
  "instance_key i = (Namespace i, Job i, Group i, Task i)"

section \<open>The report\<close>

definition FormatBool :: "bool \<Rightarrow> string" where
  "FormatBool b = (if b then ''true'' else ''false'')"

definition header :: "string list" where
  "header = [''Namespace'', ''Job'', ''Group'', ''Task'', ''Image'', ''Latest'', ''Current'',
     ''UpdateAvailable'']"

definition row :: "('v \<Rightarrow> string) \<Rightarrow> Instance \<Rightarrow> 'v \<Rightarrow> 'v \<Rightarrow> bool \<Rightarrow> string list" where
  "row str instance latest current updateAvailable =
     [Namespace instance, Job instance, Group instance, Task instance,
      RefName (Image_ref instance), str latest, str current, FormatBool updateAvailable]"

text \<open>
  The loop of \<^verbatim>\<open>run\<close> over the instances; \<open>table\<close> holds the rows appended so far.
  \<^verbatim>\<open>latest\<close> is the pointer \<^verbatim>\<open>getNewestVersion\<close> returned: calling \<^verbatim>\<open>GreaterThan\<close>
  on a nil pointer reads through it and panics.
\<close>

fun run_loop ::
  "(string \<Rightarrow> 'e + 'v) \<Rightarrow> ('v \<Rightarrow> 'v \<Rightarrow> int) \<Rightarrow> ('v \<Rightarrow> string) \<Rightarrow> (string \<rightharpoonup> 'v list) \<Rightarrow>
   string list list \<Rightarrow> Instance list \<Rightarrow> ('e, string list list) outcome"
where
  "run_loop newVersion cmp str parsedImageTags table [] = Returned table"
| "run_loop newVersion cmp str parsedImageTags table (instance # instances) =
     (case parsedImageTags (RefName (Image_ref instance)) of
        None \<Rightarrow> run_loop newVersion cmp str parsedImageTags table instances
      | Some versions \<Rightarrow>
          (let latest = getNewestVersion cmp versions in
           case newVersion (RefTag (Image_ref instance)) of
             Inl err \<Rightarrow> Failed (External err)
           | Inr current \<Rightarrow>
               (case latest of
                  None \<Rightarrow> Panicked
                | Some latest' \<Rightarrow>
                    (let updateAvailable = GreaterThan cmp latest' current in
                     run_loop newVersion cmp str parsedImageTags
                       (table @ [row str instance latest' current updateAvailable]) instances))))"

text \<open>
  The collaborators of \<^verbatim>\<open>run\<close>: the functions of the imported modules, the choosers
  of the two unordered steps, and the state of the world they read (file system,
  registries, scheduler).
\<close>

record ('e, 'v, 'r, 'c) world =
  DecodeFile :: "string \<Rightarrow> 'e + 'r Config"
  Normalize :: "string \<Rightarrow> 'e + string"
  NewClient :: "string \<Rightarrow> 'e + 'c"
  ListTags :: "string \<Rightarrow> 'e + string list"
  MatchString :: "'r \<Rightarrow> string \<Rightarrow> bool"
  NewVersion :: "string \<Rightarrow> 'e + 'v"
  Compare :: "'v \<Rightarrow> 'v \<Rightarrow> int"
  VersionString :: "'v \<Rightarrow> string"
  GetInstances :: "'c \<Rightarrow> string \<Rightarrow> ('e, Instance list) outcome"
  SortSlice :: "(Instance \<Rightarrow> Instance \<Rightarrow> bool) \<Rightarrow> Instance list \<Rightarrow> Instance list"
  Finish :: "'r WatchedImage list \<Rightarrow> nat"
  Visit :: "(string \<times> string list) list \<Rightarrow> nat"

text \<open>
  \<^verbatim>\<open>run\<close>. \<open>Returned t\<close> is the run that renders the table \<open>t\<close> (header, then rows)
  on standard output and returns nil; a run that fails or panics renders nothing,
  since \<^verbatim>\<open>Render\<close> is called after the loop only.
\<close>

definition run :: "('e, 'v, 'r, 'c) world \<Rightarrow> ('e, string list list) outcome" where
  "run w =
     (case parseConfigFile (DecodeFile w) (Normalize w) ''./config.toml'' of
        Inl err \<Rightarrow> Failed (External err)
      | Inr conf \<Rightarrow>
     (case NewClient w (Server conf) of
        Inl err \<Rightarrow> Failed (External err)
      | Inr nomadClient \<Rightarrow>
     (case getImageVersionMapping (Finish w) (Visit w) (ListTags w) (MatchString w)
             (NewVersion w) (Images conf) of
        Failed err \<Rightarrow> Failed err
      | Panicked \<Rightarrow> Panicked
      | Returned parsedImageTags \<Rightarrow>
     (case getAllInstances (SortSlice w) (GetInstances w nomadClient) (Namespaces conf) of
        Failed err \<Rightarrow> Failed err
      | Panicked \<Rightarrow> Panicked
      | Returned instances \<Rightarrow>
     (case run_loop (NewVersion w) (Compare w) (VersionString w) parsedImageTags [] instances of
        Failed err \<Rightarrow> Failed err
      | Panicked \<Rightarrow> Panicked
      | Returned table \<Rightarrow> Returned (header # table))))))"

section \<open>The claims' vocabulary\<close>

text \<open>
  A row \<open>r\<close> reports the instance: the image is watched, \<open>latest\<close> is the newest of
  its versions, \<open>current\<close> is the parsed running tag, and the last column says whether
  \<open>latest\<close> is strictly greater than \<open>current\<close>.
\<close>

definition reported ::
  "(string \<Rightarrow> 'e + 'v) \<Rightarrow> ('v \<Rightarrow> 'v \<Rightarrow> int) \<Rightarrow> ('v \<Rightarrow> string) \<Rightarrow> (string \<rightharpoonup> 'v list) \<Rightarrow>
   Instance \<Rightarrow> string list \<Rightarrow> bool"
where
  "reported newVersion cmp str parsedImageTags instance r \<longleftrightarrow>
     (\<exists>versions latest current.
        parsedImageTags (RefName (Image_ref instance)) = Some versions
        \<and> getNewestVersion cmp versions = Some latest
        \<and> newVersion (RefTag (Image_ref instance)) = Inr current
        \<and> r = row str instance latest current (cmp latest current > 0))"

text \<open>An instance whose image is watched and whose running tag does not parse.\<close>

definition unparsable :: "(string \<Rightarrow> 'e + 'v) \<Rightarrow> (string \<rightharpoonup> 'v list) \<Rightarrow> Instance \<Rightarrow> bool" where
  "unparsable newVersion parsedImageTags i \<longleftrightarrow>
     parsedImageTags (RefName (Image_ref i)) \<noteq> None \<and> isl (newVersion (RefTag (Image_ref i)))"

text \<open>The first four columns of a row.\<close>

definition row_key :: "string list \<Rightarrow> string \<times> string \<times> string \<times> string" where
  "row_key r = (r ! 0, r ! 1, r ! 2, r ! 3)"

text \<open>
  Two configured images that differ in the name only, the second carrying the canonical
  form of the first one's name.
\<close>

definition same_watch :: "(string \<Rightarrow> 'e + string) \<Rightarrow> 'r WatchedImage \<Rightarrow> 'r WatchedImage \<Rightarrow> bool" where
  "same_watch normalizeName raw canon \<longleftrightarrow>
     canonical_of normalizeName (Name raw) (Name canon)
     \<and> Include canon = Include raw \<and> Exclude canon = Exclude raw"

section \<open>A small world for concrete runs\<close>

text \<open>
  The concrete runs below need some version module, name normalizer and sort. These
  stand-ins are used in concrete runs only; every general theorem is about arbitrary
  collaborators. A version here is three dot-separated decimal numbers, compared from
  the left; a name without a registry gets the default registry in front; sorting is
  by insertion.
\<close>

type_synonym dotted = "nat \<times> nat \<times> nat"

definition digitOf :: "char \<Rightarrow> nat option" where
  "digitOf = map_of
     [(CHR ''0'', 0), (CHR ''1'', 1), (CHR ''2'', 2), (CHR ''3'', 3), (CHR ''4'', 4),
      (CHR ''5'', 5), (CHR ''6'', 6), (CHR ''7'', 7), (CHR ''8'', 8), (CHR ''9'', 9)]"

fun numberOf :: "nat \<Rightarrow> string \<Rightarrow> nat option" where
  "numberOf acc [] = Some acc"
| "numberOf acc (c # cs) =
     (case digitOf c of None \<Rightarrow> None | Some d \<Rightarrow> numberOf (10 * acc + d) cs)"

fun splitDots :: "string \<Rightarrow> string \<Rightarrow> string list" where
  "splitDots cur [] = [cur]"
| "splitDots cur (c # cs) =
     (if c = CHR ''.'' then cur # splitDots [] cs else splitDots (cur @ [c]) cs)"

definition segmentOf :: "string \<Rightarrow> nat option" where
  "segmentOf seg = (if seg = [] then None else numberOf 0 seg)"

definition dottedNewVersion :: "string \<Rightarrow> string + dotted" where
  "dottedNewVersion v =
     (case map segmentOf (splitDots [] v) of
        [Some a, Some b, Some c] \<Rightarrow> Inr (a, b, c)
      | _ \<Rightarrow> Inl (''Malformed version: '' @ v))"

definition dottedCompare :: "dotted \<Rightarrow> dotted \<Rightarrow> int" where
  "dottedCompare a b = (if a = b then 0 else if a < b then - 1 else 1)"



fun showNat :: "nat \<Rightarrow> string" where
  "showNat n =
     (if n < 10 then [''0123456789'' ! n]
      else showNat (n div 10) @ [''0123456789'' ! (n mod 10)])"

declare showNat.simps [simp del]

definition dottedString :: "dotted \<Rightarrow> string" where
  "dottedString v =
     (case v of (a, b, c) \<Rightarrow> showNat a @ ''.'' @ showNat b @ ''.'' @ showNat c)"

definition defaultRegistry :: "string \<Rightarrow> string + string" where
  "defaultRegistry s =
     (let first = takeWhile (\<lambda>c. c \<noteq> CHR ''/'') s in
      if s = [] then Inl ''invalid reference format''
      else if first = s then Inr (''docker.io/library/'' @ s)
      else if CHR ''.'' \<in> set first \<or> CHR '':'' \<in> set first \<or> first = ''localhost'' then Inr s
      else Inr (''docker.io/'' @ s))"

fun insertSorted :: "('a \<Rightarrow> 'a \<Rightarrow> bool) \<Rightarrow> 'a \<Rightarrow> 'a list \<Rightarrow> 'a list" where
  "insertSorted less' x [] = [x]"
| "insertSorted less' x (y # ys) =
     (if less' x y then x # y # ys else y # insertSorted less' x ys)"

fun insertionSort :: "('a \<Rightarrow> 'a \<Rightarrow> bool) \<Rightarrow> 'a list \<Rightarrow> 'a list" where
  "insertionSort less' [] = []"
| "insertionSort less' (x # xs) = insertSorted less' x (insertionSort less' xs)"

definition inOrder :: "'a list \<Rightarrow> nat" where
  "inOrder pending = 0"

text \<open>
  The world of a concrete run: the decoded content of \<^verbatim>\<open>./config.toml\<close>, the answer
  of the registry for each repository and the answer of the scheduler for each
  namespace. Goroutines finish, and maps are visited, in the order of the list
  (\<open>inOrder\<close>).
\<close>

definition smallWorld ::
  "string Config \<Rightarrow> (string \<Rightarrow> string + string list) \<Rightarrow>
   (string \<Rightarrow> (string, Instance list) outcome) \<Rightarrow> (string, dotted, string, unit) world"
where
  "smallWorld conf listTags getInstances =
     \<lparr>DecodeFile = (\<lambda>path. if path = ''./config.toml'' then Inr conf
                       else Inl ''no such file or directory''),
      Normalize = defaultRegistry,
      NewClient = (\<lambda>address. Inr ()),
      ListTags = listTags,
      MatchString = containsLiteral,
      NewVersion = dottedNewVersion,
      Compare = dottedCompare,
      VersionString = dottedString,
      GetInstances = (\<lambda>client. getInstances),
      SortSlice = insertionSort,
      Finish = inOrder,
      Visit = inOrder\<rparr>"

text \<open>
  The data of the concrete runs: a task of job \<open>web\<close> running the image \<open>app\<close> at a
  given tag, a task running an image nobody watches, and a configuration that watches
  one image under a given name, keeping the tags that contain \<open>1.\<close> and dropping those
  that contain \<open>rc\<close>.
\<close>

definition webTask :: "string \<Rightarrow> Instance" where
  "webTask tag =
     \<lparr>Namespace = ''default'', Job = ''web'', Group = ''frontend'', Task = ''server'',
      Image_ref = \<lparr>RefName = ''docker.io/library/app'', RefTag = tag\<rparr>\<rparr>"

definition cacheTask :: Instance where
  "cacheTask =
     \<lparr>Namespace = ''default'', Job = ''cache'', Group = ''backend'', Task = ''redis'',
      Image_ref = \<lparr>RefName = ''docker.io/library/redis'', RefTag = ''latest''\<rparr>\<rparr>"

definition appConfig :: "string \<Rightarrow> string Config" where
  "appConfig name =
     \<lparr>Server = ''http://127.0.0.1:4646'', Namespaces = [''default''],
      Images = [\<lparr>Name = name, Include = [''1.''], Exclude = [''rc'']\<rparr>]\<rparr>"

definition batchTask :: Instance where
  "batchTask =
     \<lparr>Namespace = ''batch'', Job = ''report'', Group = ''nightly'', Task = ''render'',
      Image_ref = \<lparr>RefName = ''docker.io/library/app'', RefTag = ''1.2.0''\<rparr>\<rparr>"

text \<open>
  Two watched images, a registry that answers \<open>appAnswer\<close> for the first and
  \<open>dbAnswer\<close> for the second, and the tags of the first.
\<close>

definition twoImages :: "string WatchedImage list" where
  "twoImages =
     [\<lparr>Name = ''docker.io/library/app'', Include = [''1.''], Exclude = [''rc'']\<rparr>,
      \<lparr>Name = ''docker.io/library/db'', Include = [], Exclude = []\<rparr>]"

definition registry ::
  "string + string list \<Rightarrow> string + string list \<Rightarrow> string \<Rightarrow> string + string list"
where
  "registry appAnswer dbAnswer repo =
     (if repo = ''docker.io/library/app'' then appAnswer
      else if repo = ''docker.io/library/db'' then dbAnswer
      else Inl ''NAME_UNKNOWN'')"

definition appTags :: "string + string list" where
  "appTags = Inr [''1.0.0'', ''1.3.0-rc1'', ''1.2.0'']"

text \<open>A scheduler with two namespaces and the tasks it reports in each.\<close>

definition scheduler ::
  "Instance list \<Rightarrow> Instance list \<Rightarrow> string \<Rightarrow> (string, Instance list) outcome"
where
  "scheduler inBatch inDefault namespace =
     (if namespace = ''batch'' then Returned inBatch
      else if namespace = ''default'' then Returned inDefault
      else Returned [])"

lemmas small_run =
  run_def smallWorld_def appConfig_def webTask_def cacheTask_def batchTask_def
  twoImages_def registry_def appTags_def scheduler_def inOrder_def
  parseConfigFile_def defaultRegistry_def
  getImageVersionMapping_def getImageTagMapping_def getImageTagMapping_tasks.simps
  getImageVersionMapping_loop.simps pick_out_def getTags_def
  filterTags_def isIncluded_def isExcluded_def
  getAllInstances_def sortInstances_def sortInstances_less_def
  getNewestVersion_def GreaterThan_def row_def FormatBool_def header_def
  dottedNewVersion_def segmentOf_def digitOf_def dottedCompare_def dottedString_def showNat.simps

section \<open>Properties of the tag filter\<close>

lemma isIncluded_loop_iff: "isIncluded_loop m s includes \<longleftrightarrow> (\<exists>i \<in> set includes. m i s)"
  by (induction "includes") auto

lemma isExcluded_loop_iff: "isExcluded_loop m s excludes \<longleftrightarrow> (\<exists>x \<in> set excludes. m x s)"
  by (induction "excludes") auto

lemma isIncluded_iff: "isIncluded m s includes \<longleftrightarrow> includes = [] \<or> (\<exists>i \<in> set includes. m i s)"
  by (simp add: isIncluded_def isIncluded_loop_iff)

lemma isExcluded_iff: "isExcluded m s excludes \<longleftrightarrow> (\<exists>x \<in> set excludes. m x s)"
  by (cases "excludes") (simp_all add: isExcluded_def isExcluded_loop_iff)

lemma passes_iff: "passes m include exclude tag \<longleftrightarrow> isIncluded m tag include \<and> \<not> isExcluded m tag exclude"
  by (simp add: passes_def isIncluded_iff isExcluded_iff)

lemma filterTags_loop_filter:
  "filterTags_loop m include exclude filtered tags =
     filtered @ filter (passes m include exclude) tags"
  by (induction tags arbitrary: filtered) (simp_all add: passes_iff)

lemma filterTags_filter:
  "filterTags m tags include exclude = filter (passes m include exclude) tags"
  by (simp add: filterTags_def filterTags_loop_filter)

text \<open>
  Claim C3. A tag is in the output of \<open>filterTags\<close> exactly when it is an input tag that
  passes inclusion (no include matcher, or one that matches) and that no exclude
  matcher matches. The output is the input with the other tags removed: the kept tags
  stay in their order, and each keeps its number of occurrences.
\<close>

theorem filterTags_policy:
  "filterTags m tags include exclude = filter (passes m include exclude) tags
   \<and> (tag \<in> set (filterTags m tags include exclude) \<longleftrightarrow>
        tag \<in> set tags \<and> (include = [] \<or> (\<exists>i \<in> set include. m i tag))
          \<and> \<not> (\<exists>x \<in> set exclude. m x tag))
   \<and> count_list (filterTags m tags include exclude) tag =
        (if passes m include exclude tag then count_list tags tag else 0)"
proof -
  have "count_list (filter P xs) t = (if P t then count_list xs t else 0)"
    for P and xs :: "string list" and t
    by (induction xs) auto
  then show ?thesis
    by (auto simp: filterTags_filter passes_def)
qed

theorem filterTags_policy_witness:
  "filterTags containsLiteral
     [''v1.0.0'', ''v1.2.0'', ''latest'', ''v1.1.0-rc1'', ''v1.0.0'', ''v2.0.0'']
     [''v1.'', ''latest''] [''rc'', ''beta'']
   = [''v1.0.0'', ''v1.2.0'', ''latest'', ''v1.0.0'']
   \<and> ''v1.1.0-rc1'' \<notin> set (filterTags containsLiteral
     [''v1.0.0'', ''v1.2.0'', ''latest'', ''v1.1.0-rc1'', ''v1.0.0'', ''v2.0.0'']
     [''v1.'', ''latest''] [''rc'', ''beta''])"
  using filterTags_policy [of containsLiteral
     "[''v1.0.0'', ''v1.2.0'', ''latest'', ''v1.1.0-rc1'', ''v1.0.0'', ''v2.0.0'']"
     "[''v1.'', ''latest'']" "[''rc'', ''beta'']" "''v1.1.0-rc1''"]
  by (simp add: passes_def)

text \<open>
  Claim C9. Filtering is idempotent: filtering the output of \<open>filterTags\<close> again with
  the same include and exclude sets gives that output.
\<close>

theorem filterTags_idempotent:
  "filterTags m (filterTags m tags include exclude) include exclude
     = filterTags m tags include exclude"
  by (simp add: filterTags_filter)

theorem filterTags_idempotent_witness:
  "filterTags containsLiteral
     (filterTags containsLiteral [''1.0.0'', ''1.1.0-rc1'', ''latest'', ''1.2.0''] [''1.''] [''rc''])
     [''1.''] [''rc'']
   = [''1.0.0'', ''1.2.0'']"
  using filterTags_idempotent [of containsLiteral
     "[''1.0.0'', ''1.1.0-rc1'', ''latest'', ''1.2.0'']" "[''1.'']" "[''rc'']"]
  by (simp add: filterTags_filter passes_def)

section \<open>Properties of the newest version\<close>

lemma weak_order_keyed:
  fixes key :: "'v \<Rightarrow> 'k :: linorder"
  shows "weak_order (\<lambda>a b. if key a = key b then 0 else if key a < key b then - 1 else (1 :: int))"
  unfolding weak_order_def by (intro conjI allI) (auto simp: not_less_iff_gr_or_eq)

lemma weak_order_dottedCompare: "weak_order dottedCompare"
  using weak_order_keyed [where key = "\<lambda>v :: dotted. v"] unfolding dottedCompare_def .








section \<open>Properties of the resolution\<close>

lemma pick_out_mset:
  assumes "pending \<noteq> []" and "pick_out pick pending = (x, rest)"
  shows "mset pending = add_mset x (mset rest)"
proof -
  let ?k = "pick pending mod length pending"
  from assms(1) have k: "?k < length pending" by simp
  from assms(2) have x: "x = pending ! ?k" and rest: "rest = take ?k pending @ drop (Suc ?k) pending"
    by (simp_all add: pick_out_def Let_def)
  have "pending = take ?k pending @ pending ! ?k # drop (Suc ?k) pending"
    using k by (simp add: id_take_nth_drop)
  then have "mset pending = mset (take ?k pending @ pending ! ?k # drop (Suc ?k) pending)"
    by simp
  then show ?thesis by (simp add: x rest)
qed

lemma pick_out_set:
  assumes "pending \<noteq> []" and "pick_out pick pending = (x, rest)"
  shows "set pending = insert x (set rest)"
  using pick_out_mset [OF assms] by (metis set_mset_add_mset_insert set_mset_mset)

lemma map_of_assign: "map_of (assign k v al) = (map_of al)(k \<mapsto> v)"
  by (induction al) (auto simp: fun_eq_iff)

lemma fst_set_assign: "fst ` set (assign k v al) = insert k (fst ` set al)"
  by (induction al) auto

lemma distinct_assign: "distinct (map fst al) \<Longrightarrow> distinct (map fst (assign k v al))"
  by (induction al) (auto simp: fst_set_assign)

lemma getImageTagMapping_tasks_fails:
  assumes "\<exists>w \<in> set pending. isl (getTags listTags m w)"
  shows "\<exists>w \<in> set pending. \<exists>err. getTags listTags m w = Inl err
           \<and> getImageTagMapping_tasks finish listTags m pending imageTags = Failed (External err)"
  using assms
proof (induction finish listTags m pending imageTags rule: getImageTagMapping_tasks.induct)
  case (1 finish listTags m pending imageTags)
  from "1.prems" have ne: "pending \<noteq> []" by auto
  obtain watch rest where po: "pick_out finish pending = (watch, rest)"
    by (cases "pick_out finish pending")
  note s = pick_out_set [OF ne po]
  show ?case
  proof (cases "getTags listTags m watch")
    case (Inl err)
    have "getImageTagMapping_tasks finish listTags m pending imageTags = Failed (External err)"
      by (subst getImageTagMapping_tasks.simps) (simp add: ne po Inl)
    with Inl s show ?thesis by auto
  next
    case (Inr tags)
    with "1.prems" s have "\<exists>w \<in> set rest. isl (getTags listTags m w)" by auto
    moreover
    have "getImageTagMapping_tasks finish listTags m pending imageTags
        = getImageTagMapping_tasks finish listTags m rest (assign (Name watch) tags imageTags)"
      by (subst getImageTagMapping_tasks.simps) (simp add: ne po Inr)
    ultimately show ?thesis
      using "1.IH" [OF ne po [symmetric] Inr] s by auto
  qed
qed

lemma getImageTagMapping_tasks_returns:
  assumes "getImageTagMapping_tasks finish listTags m pending imageTags = Returned result"
    and "distinct (map fst imageTags)"
  shows "distinct (map fst result)
       \<and> fst ` set result = fst ` set imageTags \<union> Name ` set pending
       \<and> (\<forall>w \<in> set pending. \<not> isl (getTags listTags m w))
       \<and> (\<forall>n. n \<notin> Name ` set pending \<longrightarrow> map_of result n = map_of imageTags n)
       \<and> (\<forall>n \<in> Name ` set pending. \<exists>w \<in> set pending. Name w = n
              \<and> Inr (the (map_of result n)) = getTags listTags m w)"
  using assms
proof (induction finish listTags m pending imageTags rule: getImageTagMapping_tasks.induct)
  case (1 finish listTags m pending imageTags)
  show ?case
  proof (cases "pending = []")
    case True
    with "1.prems" show ?thesis
      by (simp add: getImageTagMapping_tasks.simps [of _ _ _ "[]"])
  next
    case ne: False
    obtain watch rest where po: "pick_out finish pending = (watch, rest)"
      by (cases "pick_out finish pending")
    note s = pick_out_set [OF ne po]
    from "1.prems"(1) ne po obtain tags where tags: "getTags listTags m watch = Inr tags"
      and r: "getImageTagMapping_tasks finish listTags m rest (assign (Name watch) tags imageTags)
               = Returned result"
      by (subst (asm) getImageTagMapping_tasks.simps) (auto split: sum.splits)
    note ih = "1.IH" [OF ne po [symmetric] tags r distinct_assign [OF "1.prems"(2)]]
    from ih have d: "distinct (map fst result)" by blast
    from ih have keys: "fst ` set result = fst ` set imageTags \<union> Name ` set pending"
      by (auto simp: fst_set_assign s)
    from ih tags have ok: "\<forall>w \<in> set pending. \<not> isl (getTags listTags m w)"
      by (auto simp: s)
    from ih have out: "\<forall>n. n \<notin> Name ` set pending \<longrightarrow> map_of result n = map_of imageTags n"
      by (auto simp: s map_of_assign)
    have "\<exists>w \<in> set pending. Name w = n \<and> Inr (the (map_of result n)) = getTags listTags m w"
      if "n \<in> Name ` set pending" for n
    proof (cases "n \<in> Name ` set rest")
      case True
      with ih show ?thesis by (auto simp: s)
    next
      case False
      with that s have n: "n = Name watch" by auto
      from ih False have "map_of result n = map_of (assign (Name watch) tags imageTags) n"
        by blast
      then show ?thesis using n tags s by (auto simp: map_of_assign)
    qed
    with d keys ok out show ?thesis by blast
  qed
qed

lemma parseTags_fails:
  assumes "\<exists>t \<in> set tags. isl (newVersion t)"
  shows "\<exists>t \<in> set tags. \<exists>err. newVersion t = Inl err
           \<and> parseTags newVersion imageName vers tags = Inl (CouldntParseTag imageName err)"
  using assms
  by (induction tags arbitrary: vers) (auto split: sum.splits)

lemma parseTags_Inl:
  "parseTags newVersion imageName vers tags = Inl e \<Longrightarrow> \<exists>t \<in> set tags. isl (newVersion t)"
  by (induction tags arbitrary: vers) (auto split: sum.splits)

lemma parseTags_returns:
  "parseTags newVersion imageName vers tags = Inr result \<Longrightarrow>
     (\<forall>t \<in> set tags. \<not> isl (newVersion t)) \<and> length result = length vers + length tags"
  by (induction tags arbitrary: vers) (auto split: sum.splits)

lemma getImageVersionMapping_loop_fails:
  assumes "\<exists>(n, tags) \<in> set pending. \<exists>t \<in> set tags. isl (newVersion t)"
  shows "\<exists>(n, tags) \<in> set pending. \<exists>t \<in> set tags. \<exists>err. newVersion t = Inl err
           \<and> getImageVersionMapping_loop visit newVersion pending parsedImageTags
               = Failed (CouldntParseTag n err)"
  using assms
proof (induction visit newVersion pending parsedImageTags rule: getImageVersionMapping_loop.induct)
  case (1 visit newVersion pending parsedImageTags)
  from "1.prems" have ne: "pending \<noteq> []" by auto
  obtain imageName tags rest where po: "pick_out visit pending = ((imageName, tags), rest)"
    by (cases "pick_out visit pending") auto
  note s = pick_out_set [OF ne po]
  show ?case
  proof (cases "parseTags newVersion imageName [] tags")
    case (Inl e)
    have "getImageVersionMapping_loop visit newVersion pending parsedImageTags = Failed e"
      by (subst getImageVersionMapping_loop.simps) (simp add: ne po Inl)
    with parseTags_fails [OF parseTags_Inl [OF Inl], of imageName "[]"] Inl s
    show ?thesis by auto
  next
    case (Inr vers)
    from parseTags_returns [OF Inr] "1.prems" s
    have "\<exists>(n, tags) \<in> set rest. \<exists>t \<in> set tags. isl (newVersion t)" by auto
    from "1.IH" [OF ne po [symmetric] refl Inr this]
    obtain n ts t err where found: "(n, ts) \<in> set rest" "t \<in> set ts" "newVersion t = Inl err"
      and "getImageVersionMapping_loop visit newVersion rest (parsedImageTags(imageName \<mapsto> vers))
             = Failed (CouldntParseTag n err)"
      by blast
    moreover
    have "getImageVersionMapping_loop visit newVersion pending parsedImageTags
        = getImageVersionMapping_loop visit newVersion rest (parsedImageTags(imageName \<mapsto> vers))"
      by (subst getImageVersionMapping_loop.simps) (simp add: ne po Inr)
    ultimately
    have "getImageVersionMapping_loop visit newVersion pending parsedImageTags
            = Failed (CouldntParseTag n err)"
      by simp
    with found s show ?thesis by force
  qed
qed

lemma getImageVersionMapping_loop_returns:
  assumes "getImageVersionMapping_loop visit newVersion pending parsedImageTags = Returned result"
  shows "dom result = dom parsedImageTags \<union> fst ` set pending
       \<and> (\<forall>(n, tags) \<in> set pending. \<forall>t \<in> set tags. \<not> isl (newVersion t))"
  using assms
proof (induction visit newVersion pending parsedImageTags rule: getImageVersionMapping_loop.induct)
  case (1 visit newVersion pending parsedImageTags)
  show ?case
  proof (cases "pending = []")
    case True
    with "1.prems" show ?thesis
      by (simp add: getImageVersionMapping_loop.simps [of _ _ "[]"])
  next
    case ne: False
    obtain imageName tags rest where po: "pick_out visit pending = ((imageName, tags), rest)"
      by (cases "pick_out visit pending") auto
    note s = pick_out_set [OF ne po]
    from "1.prems" ne po obtain vers where vers: "parseTags newVersion imageName [] tags = Inr vers"
      and r: "getImageVersionMapping_loop visit newVersion rest (parsedImageTags(imageName \<mapsto> vers))
               = Returned result"
      by (subst (asm) getImageVersionMapping_loop.simps) (auto split: sum.splits)
    from "1.IH" [OF ne po [symmetric] refl vers r] parseTags_returns [OF vers] s
    show ?thesis by auto
  qed
qed

lemma getImageTagMapping_tasks_ok:
  assumes "\<forall>w \<in> set pending. \<not> isl (getTags listTags m w)"
  shows "\<exists>result. getImageTagMapping_tasks finish listTags m pending imageTags = Returned result"
  using assms
proof (induction finish listTags m pending imageTags rule: getImageTagMapping_tasks.induct)
  case (1 finish listTags m pending imageTags)
  show ?case
  proof (cases "pending = []")
    case True
    then show ?thesis by (simp add: getImageTagMapping_tasks.simps [of _ _ _ "[]"])
  next
    case ne: False
    obtain watch rest where po: "pick_out finish pending = (watch, rest)"
      by (cases "pick_out finish pending")
    note s = pick_out_set [OF ne po]
    with "1.prems" obtain tags where tags: "getTags listTags m watch = Inr tags"
      by (cases "getTags listTags m watch") auto
    have "getImageTagMapping_tasks finish listTags m pending imageTags
        = getImageTagMapping_tasks finish listTags m rest (assign (Name watch) tags imageTags)"
      by (subst getImageTagMapping_tasks.simps) (simp add: ne po tags)
    moreover from "1.prems" s have "\<forall>w \<in> set rest. \<not> isl (getTags listTags m w)" by simp
    ultimately show ?thesis
      using "1.IH" [OF ne po [symmetric] tags] by simp
  qed
qed

lemma getImageTagMapping_entry:
  assumes r: "getImageTagMapping finish listTags m images = Returned imageTags"
    and d: "distinct (map Name images)"
    and w: "w \<in> set images" and t: "getTags listTags m w = Inr tags"
  shows "(Name w, tags) \<in> set imageTags"
proof -
  from r have r': "getImageTagMapping_tasks finish listTags m images [] = Returned imageTags"
    by (simp add: getImageTagMapping_def)
  have e: "distinct (map fst ([] :: (string \<times> string list) list))" by simp
  note f = getImageTagMapping_tasks_returns [OF r' e]
  from f have keys: "fst ` set imageTags = fst ` set ([] :: (string \<times> string list) list) \<union> Name ` set images"
    by (rule conjunct1 [OF conjunct2])
  from f have sel: "\<forall>n \<in> Name ` set images. \<exists>w \<in> set images. Name w = n
              \<and> Inr (the (map_of imageTags n)) = getTags listTags m w"
    by (rule conjunct2 [OF conjunct2 [OF conjunct2 [OF conjunct2]]])
  from w have mem: "Name w \<in> Name ` set images" by (rule imageI)
  from bspec [OF sel mem] obtain w' where w': "w' \<in> set images" "Name w' = Name w"
    "Inr (the (map_of imageTags (Name w))) = getTags listTags m w'"
    by (elim bexE conjE)
  from d have "inj_on Name (set images)" by (simp add: distinct_map)
  from inj_onD [OF this w'(2) w'(1) w] have "w' = w" .
  with w'(3) t have v: "the (map_of imageTags (Name w)) = tags" by simp
  from keys mem have "Name w \<in> fst ` set imageTags" by simp
  then have "map_of imageTags (Name w) \<noteq> None"
    by (simp add: map_of_eq_None_iff)
  then obtain x where "map_of imageTags (Name w) = Some x" by blast
  with v have "map_of imageTags (Name w) = Some tags" by simp
  then show ?thesis by (rule map_of_SomeD)
qed

lemma getImageVersionMapping_returns:
  assumes a: "getImageVersionMapping finish visit listTags m newVersion images = Returned parsedImageTags"
  shows "dom parsedImageTags = Name ` set images"
    and "\<forall>w' \<in> set images. \<exists>tags'. getTags listTags m w' = Inr tags'
                  \<and> (\<forall>t \<in> set tags'. distinct (map Name images) \<longrightarrow> \<not> isl (newVersion t))"
proof -
  from a obtain imageTags where r: "getImageTagMapping finish listTags m images = Returned imageTags"
    and l: "getImageVersionMapping_loop visit newVersion imageTags Map.empty = Returned parsedImageTags"
    by (auto simp: getImageVersionMapping_def split: outcome.splits)
  from r have r': "getImageTagMapping_tasks finish listTags m images [] = Returned imageTags"
    by (simp add: getImageTagMapping_def)
  have e: "distinct (map fst ([] :: (string \<times> string list) list))" by simp
  note f = getImageTagMapping_tasks_returns [OF r' e]
  from f have keys: "fst ` set imageTags = Name ` set images" by simp
  from f have ok: "\<forall>w \<in> set images. \<not> isl (getTags listTags m w)"
    by (rule conjunct1 [OF conjunct2 [OF conjunct2]])
  note g = getImageVersionMapping_loop_returns [OF l]
  from g have parsed: "\<forall>(n, tags) \<in> set imageTags. \<forall>t \<in> set tags. \<not> isl (newVersion t)"
    by (rule conjunct2)
  from g keys show "dom parsedImageTags = Name ` set images" by simp
  show "\<forall>w' \<in> set images. \<exists>tags'. getTags listTags m w' = Inr tags'
                  \<and> (\<forall>t \<in> set tags'. distinct (map Name images) \<longrightarrow> \<not> isl (newVersion t))"
  proof
    fix w' assume w': "w' \<in> set images"
    with ok obtain tags' where t: "getTags listTags m w' = Inr tags'"
      by (cases "getTags listTags m w'") auto
    have "\<not> isl (newVersion t)" if "t \<in> set tags'" "distinct (map Name images)" for t
    proof -
      from getImageTagMapping_entry [OF r that(2) w' t] have "(Name w', tags') \<in> set imageTags" .
      from bspec [OF parsed this] that(1) show ?thesis by simp
    qed
    with t show "\<exists>tags'. getTags listTags m w' = Inr tags'
                  \<and> (\<forall>t \<in> set tags'. distinct (map Name images) \<longrightarrow> \<not> isl (newVersion t))"
      by blast
  qed
qed

lemma getImageTagMapping_entry_of:
  assumes r: "getImageTagMapping finish listTags m images = Returned imageTags"
    and e: "(n, ts) \<in> set imageTags"
  shows "\<exists>w \<in> set images. Name w = n \<and> getTags listTags m w = Inr ts"
proof -
  from r have r': "getImageTagMapping_tasks finish listTags m images [] = Returned imageTags"
    by (simp add: getImageTagMapping_def)
  have em: "distinct (map fst ([] :: (string \<times> string list) list))" by simp
  note f = getImageTagMapping_tasks_returns [OF r' em]
  from f have d: "distinct (map fst imageTags)" by (rule conjunct1)
  from f have keys: "fst ` set imageTags = fst ` set ([] :: (string \<times> string list) list) \<union> Name ` set images"
    by (rule conjunct1 [OF conjunct2])
  from f have sel: "\<forall>n \<in> Name ` set images. \<exists>w \<in> set images. Name w = n
              \<and> Inr (the (map_of imageTags n)) = getTags listTags m w"
    by (rule conjunct2 [OF conjunct2 [OF conjunct2 [OF conjunct2]]])
  from e have "n \<in> fst ` set imageTags" by force
  with keys have mem: "n \<in> Name ` set images" by simp
  from map_of_is_SomeI [OF d e] have "the (map_of imageTags n) = ts" by simp
  with bspec [OF sel mem] show ?thesis by auto
qed

text \<open>
  Claim C2. When fetching the tags of some watched image fails, \<open>getImageVersionMapping\<close>
  returns the fetch error of a failing image and no mapping. When all fetches succeed
  and a tag of the collected tag mapping does not parse, it returns the parse error of
  a kept tag of some image, wrapped with that image's name, and no mapping; with
  distinct image names this holds as soon as a kept tag of any image does not parse. A
  mapping is returned only when every image was fetched and parsed, and it has an
  entry for the name of every image.
\<close>

theorem resolve_fails_as_a_whole:
  "(w \<in> set images \<and> getTags listTags m w = Inl err \<longrightarrow>
      (\<exists>w' \<in> set images. \<exists>err'. getTags listTags m w' = Inl err'
         \<and> getImageVersionMapping finish visit listTags m newVersion images
             = Failed (External err')))
   \<and> (getImageTagMapping finish listTags m images = Returned imageTags
        \<and> (imageName, tags) \<in> set imageTags \<and> tagStr \<in> set tags
        \<and> newVersion tagStr = Inl err \<longrightarrow>
      (\<exists>w' \<in> set images. \<exists>ts. getTags listTags m w' = Inr ts
         \<and> (\<exists>t \<in> set ts. \<exists>err'. newVersion t = Inl err'
               \<and> getImageVersionMapping finish visit listTags m newVersion images
                   = Failed (CouldntParseTag (Name w') err'))))
   \<and> (distinct (map Name images) \<and> w \<in> set images
        \<and> getTags listTags m w = Inr tags \<and> tagStr \<in> set tags
        \<and> newVersion tagStr = Inl err \<longrightarrow>
      (\<exists>w' \<in> set images. \<exists>err'. getTags listTags m w' = Inl err'
         \<and> getImageVersionMapping finish visit listTags m newVersion images
             = Failed (External err'))
      \<or> (\<exists>w' \<in> set images. \<exists>ts. getTags listTags m w' = Inr ts
         \<and> (\<exists>t \<in> set ts. \<exists>err'. newVersion t = Inl err'
               \<and> getImageVersionMapping finish visit listTags m newVersion images
                   = Failed (CouldntParseTag (Name w') err'))))
   \<and> (getImageVersionMapping finish visit listTags m newVersion images
         = Returned parsedImageTags \<longrightarrow>
      dom parsedImageTags = Name ` set images
      \<and> (\<forall>w' \<in> set images. \<exists>tags'. getTags listTags m w' = Inr tags'
            \<and> (\<forall>t \<in> set tags'. distinct (map Name images) \<longrightarrow> \<not> isl (newVersion t))))"
proof -
  let ?result = "getImageVersionMapping finish visit listTags m newVersion images"
  have fetch: "\<exists>w' \<in> set images. \<exists>err'. getTags listTags m w' = Inl err'
         \<and> ?result = Failed (External err')"
    if "\<exists>w \<in> set images. isl (getTags listTags m w)"
    using getImageTagMapping_tasks_fails [OF that, of finish "[]"]
    by (auto simp: getImageVersionMapping_def getImageTagMapping_def)
  have parse: "\<exists>w' \<in> set images. \<exists>ts. getTags listTags m w' = Inr ts
         \<and> (\<exists>t \<in> set ts. \<exists>err'. newVersion t = Inl err'
               \<and> ?result = Failed (CouldntParseTag (Name w') err'))"
    if r: "getImageTagMapping finish listTags m images = Returned imageTags"
      and bad: "(n, ts) \<in> set imageTags" "t \<in> set ts" "isl (newVersion t)"
    for imageTags n ts t
  proof -
    from bad have "\<exists>(n, ts) \<in> set imageTags. \<exists>t \<in> set ts. isl (newVersion t)" by force
    from getImageVersionMapping_loop_fails [OF this, of visit Map.empty]
    obtain n' ts' t' err' where f: "(n', ts') \<in> set imageTags" "t' \<in> set ts'"
      "newVersion t' = Inl err'"
      "getImageVersionMapping_loop visit newVersion imageTags Map.empty
         = Failed (CouldntParseTag n' err')"
      by blast
    from getImageTagMapping_entry_of [OF r f(1)] obtain w' where
      w': "w' \<in> set images" "Name w' = n'" "getTags listTags m w' = Inr ts'" by blast
    from f(4) r w'(2) have "?result = Failed (CouldntParseTag (Name w') err')"
      by (simp add: getImageVersionMapping_def)
    with w' f(2,3) show ?thesis by blast
  qed
  show ?thesis
  proof (intro conjI impI)
    assume "w \<in> set images \<and> getTags listTags m w = Inl err"
    then have "\<exists>w \<in> set images. isl (getTags listTags m w)" by force
    then show "\<exists>w' \<in> set images. \<exists>err'. getTags listTags m w' = Inl err'
         \<and> ?result = Failed (External err')"
      by (rule fetch)
  next
    assume a: "getImageTagMapping finish listTags m images = Returned imageTags
        \<and> (imageName, tags) \<in> set imageTags \<and> tagStr \<in> set tags
        \<and> newVersion tagStr = Inl err"
    then have "isl (newVersion tagStr)" by simp
    with a show "\<exists>w' \<in> set images. \<exists>ts. getTags listTags m w' = Inr ts
         \<and> (\<exists>t \<in> set ts. \<exists>err'. newVersion t = Inl err'
               \<and> ?result = Failed (CouldntParseTag (Name w') err'))"
      using parse [of imageTags imageName tags tagStr] by blast
  next
    assume a: "distinct (map Name images) \<and> w \<in> set images
        \<and> getTags listTags m w = Inr tags \<and> tagStr \<in> set tags
        \<and> newVersion tagStr = Inl err"
    show "(\<exists>w' \<in> set images. \<exists>err'. getTags listTags m w' = Inl err'
         \<and> ?result = Failed (External err'))
      \<or> (\<exists>w' \<in> set images. \<exists>ts. getTags listTags m w' = Inr ts
         \<and> (\<exists>t \<in> set ts. \<exists>err'. newVersion t = Inl err'
               \<and> ?result = Failed (CouldntParseTag (Name w') err')))"
    proof (cases "\<exists>w \<in> set images. isl (getTags listTags m w)")
      case True
      from fetch [OF this] show ?thesis by (rule disjI1)
    next
      case False
      then have "\<forall>w \<in> set images. \<not> isl (getTags listTags m w)" by simp
      from getImageTagMapping_tasks_ok [OF this, of finish "[]"] obtain imageTags
        where r: "getImageTagMapping finish listTags m images = Returned imageTags"
        by (auto simp: getImageTagMapping_def)
      from a getImageTagMapping_entry [OF r, of w tags]
      have "(Name w, tags) \<in> set imageTags" by simp
      moreover from a have "tagStr \<in> set tags" "isl (newVersion tagStr)" by simp_all
      ultimately show ?thesis
        using parse [OF r] by blast
    qed
  next
    assume a: "?result = Returned parsedImageTags"
    from getImageVersionMapping_returns [OF a]
    show "dom parsedImageTags = Name ` set images"
      and "\<forall>w' \<in> set images. \<exists>tags'. getTags listTags m w' = Inr tags'
                  \<and> (\<forall>t \<in> set tags'. distinct (map Name images) \<longrightarrow> \<not> isl (newVersion t))"
      by blast+
  qed
qed

theorem resolve_fails_as_a_whole_witness:
  "getTags (registry appTags (Inl ''connection refused'')) containsLiteral (twoImages ! 1)
     = Inl ''connection refused''
   \<and> getImageVersionMapping inOrder inOrder (registry appTags (Inl ''connection refused''))
         containsLiteral dottedNewVersion twoImages
     = Failed (External ''connection refused'')
   \<and> getImageTagMapping inOrder (registry appTags (Inr [''latest''])) containsLiteral twoImages
     = Returned [(''docker.io/library/app'', [''1.0.0'', ''1.2.0'']),
                 (''docker.io/library/db'', [''latest''])]
   \<and> dottedNewVersion ''latest'' = Inl ''Malformed version: latest''
   \<and> getImageVersionMapping inOrder inOrder (registry appTags (Inr [''latest'']))
         containsLiteral dottedNewVersion twoImages
     = Failed (CouldntParseTag ''docker.io/library/db'' ''Malformed version: latest'')"
  using resolve_fails_as_a_whole [where w = "twoImages ! 1" and images = twoImages
      and listTags = "registry appTags (Inl ''connection refused'')" and m = containsLiteral
      and err = "''connection refused''" and finish = inOrder and visit = inOrder
      and newVersion = dottedNewVersion]
    resolve_fails_as_a_whole [where images = twoImages
      and listTags = "registry appTags (Inr [''latest''])" and m = containsLiteral
      and err = "''Malformed version: latest''" and finish = inOrder and visit = inOrder
      and newVersion = dottedNewVersion and imageName = "''docker.io/library/db''"
      and tags = "[''latest'']" and tagStr = "''latest''"
      and imageTags = "[(''docker.io/library/app'', [''1.0.0'', ''1.2.0'']),
                 (''docker.io/library/db'', [''latest''])]"]
  by (simp add: small_run)


section \<open>Properties of the report loop\<close>

lemma run_loop_skip:
  "parsedImageTags (RefName (Image_ref instance)) = None \<Longrightarrow>
     run_loop newVersion cmp str parsedImageTags table (before @ instance # after)
       = run_loop newVersion cmp str parsedImageTags table (before @ after)"
  by (induction before arbitrary: table) (auto split: option.splits sum.splits simp: Let_def)

lemma run_loop_rows:
  "run_loop newVersion cmp str parsedImageTags table instances = Returned rows \<Longrightarrow>
     \<exists>new. rows = table @ new
       \<and> list_all2 (reported newVersion cmp str parsedImageTags)
            (filter (\<lambda>i. parsedImageTags (RefName (Image_ref i)) \<noteq> None) instances) new"
proof (induction "instances" arbitrary: table)
  case Nil
  then show ?case by simp
next
  case (Cons inst insts)
  show ?case
  proof (cases "parsedImageTags (RefName (Image_ref inst))")
    case None
    with Cons show ?thesis by simp
  next
    case (Some versions)
    with Cons.prems obtain latest current where
      l: "getNewestVersion cmp versions = Some latest"
      and c: "newVersion (RefTag (Image_ref inst)) = Inr current"
      and r: "run_loop newVersion cmp str parsedImageTags
                (table @ [row str inst latest current (GreaterThan cmp latest current)]) insts
              = Returned rows"
      by (auto split: sum.splits option.splits simp: Let_def)
    from Cons.IH [OF r] obtain new where
      new: "rows = (table @ [row str inst latest current (GreaterThan cmp latest current)]) @ new"
      "list_all2 (reported newVersion cmp str parsedImageTags)
            (filter (\<lambda>i. parsedImageTags (RefName (Image_ref i)) \<noteq> None) insts) new"
      by blast
    have "reported newVersion cmp str parsedImageTags inst
            (row str inst latest current (GreaterThan cmp latest current))"
      using Some l c by (auto simp: reported_def GreaterThan_def)
    with new Some show ?thesis by simp
  qed
qed

lemma run_loop_Cons_skip:
  "parsedImageTags (RefName (Image_ref x)) = None \<Longrightarrow>
     run_loop newVersion cmp str parsedImageTags table (x # xs)
       = run_loop newVersion cmp str parsedImageTags table xs"
  by simp

lemma run_loop_Cons_fail:
  "parsedImageTags (RefName (Image_ref x)) = Some versions \<Longrightarrow>
   newVersion (RefTag (Image_ref x)) = Inl err \<Longrightarrow>
     run_loop newVersion cmp str parsedImageTags table (x # xs) = Failed (External err)"
  by (simp add: Let_def)

lemma run_loop_Cons_panic:
  "parsedImageTags (RefName (Image_ref x)) = Some [] \<Longrightarrow>
   newVersion (RefTag (Image_ref x)) = Inr current \<Longrightarrow>
     run_loop newVersion cmp str parsedImageTags table (x # xs) = Panicked"
  by (simp add: Let_def getNewestVersion_def)

lemma run_loop_Cons_row:
  "parsedImageTags (RefName (Image_ref x)) = Some versions \<Longrightarrow>
   getNewestVersion cmp versions = Some latest \<Longrightarrow>
   newVersion (RefTag (Image_ref x)) = Inr current \<Longrightarrow>
     run_loop newVersion cmp str parsedImageTags table (x # xs)
       = run_loop newVersion cmp str parsedImageTags
           (table @ [row str x latest current (GreaterThan cmp latest current)]) xs"
  by (simp add: Let_def)

lemma getNewestVersion_Some: "versions \<noteq> [] \<Longrightarrow> \<exists>latest. getNewestVersion cmp versions = Some latest"
  by (cases versions) (simp_all add: getNewestVersion_def)

lemma run_loop_fails:
  assumes nonempty: "\<forall>n. parsedImageTags n \<noteq> Some []"
    and "\<exists>i \<in> set instances. unparsable newVersion parsedImageTags i"
  shows "\<exists>before i after err. instances = before @ i # after
           \<and> (\<forall>j \<in> set before. \<not> unparsable newVersion parsedImageTags j)
           \<and> parsedImageTags (RefName (Image_ref i)) \<noteq> None
           \<and> newVersion (RefTag (Image_ref i)) = Inl err
           \<and> run_loop newVersion cmp str parsedImageTags table instances = Failed (External err)"
  using assms(2)
proof (induction "instances" arbitrary: table)
  case Nil
  then show ?case by simp
next
  case (Cons x insts)
  show ?case
  proof (cases "unparsable newVersion parsedImageTags x")
    case True
    then obtain err versions where e: "newVersion (RefTag (Image_ref x)) = Inl err"
      and v: "parsedImageTags (RefName (Image_ref x)) = Some versions"
      unfolding unparsable_def by (cases "newVersion (RefTag (Image_ref x))") auto
    show ?thesis
    proof (intro exI conjI)
      show "x # insts = [] @ x # insts" by simp
      show "\<forall>j \<in> set []. \<not> unparsable newVersion parsedImageTags j" by simp
      show "parsedImageTags (RefName (Image_ref x)) \<noteq> None" using v by simp
      show "newVersion (RefTag (Image_ref x)) = Inl err" by (rule e)
      show "run_loop newVersion cmp str parsedImageTags table (x # insts) = Failed (External err)"
        by (rule run_loop_Cons_fail [where parsedImageTags = parsedImageTags and newVersion = newVersion, OF v e])
    qed
  next
    case False
    with Cons.prems have ex: "\<exists>i \<in> set insts. unparsable newVersion parsedImageTags i" by auto
    have "\<exists>t'. run_loop newVersion cmp str parsedImageTags table (x # insts)
             = run_loop newVersion cmp str parsedImageTags t' insts"
    proof (cases "parsedImageTags (RefName (Image_ref x))")
      case None
      from run_loop_Cons_skip [where parsedImageTags = parsedImageTags, OF None] show ?thesis by blast
    next
      case (Some versions)
      with nonempty have "versions \<noteq> []" by auto
      from getNewestVersion_Some [OF this] obtain latest
        where l: "getNewestVersion cmp versions = Some latest" by blast
      from False Some obtain current where c: "newVersion (RefTag (Image_ref x)) = Inr current"
        unfolding unparsable_def by (cases "newVersion (RefTag (Image_ref x))") auto
      from run_loop_Cons_row [where parsedImageTags = parsedImageTags and newVersion = newVersion, OF Some l c]
      show ?thesis by blast
    qed
    then obtain t' where step: "run_loop newVersion cmp str parsedImageTags table (x # insts)
             = run_loop newVersion cmp str parsedImageTags t' insts" ..
    from Cons.IH [OF ex, of t'] obtain before i after err where ih:
      "insts = before @ i # after" "\<forall>j \<in> set before. \<not> unparsable newVersion parsedImageTags j"
      "parsedImageTags (RefName (Image_ref i)) \<noteq> None" "newVersion (RefTag (Image_ref i)) = Inl err"
      "run_loop newVersion cmp str parsedImageTags t' insts = Failed (External err)"
      by blast
    show ?thesis
    proof (intro exI conjI)
      show "x # insts = (x # before) @ i # after" using ih(1) by simp
      show "\<forall>j \<in> set (x # before). \<not> unparsable newVersion parsedImageTags j"
        using ih(2) False by simp
      show "parsedImageTags (RefName (Image_ref i)) \<noteq> None" by (rule ih(3))
      show "newVersion (RefTag (Image_ref i)) = Inl err" by (rule ih(4))
      show "run_loop newVersion cmp str parsedImageTags table (x # insts) = Failed (External err)"
        using step ih(5) by simp
    qed
  qed
qed

text \<open>
  Claim C6. An instance whose image name has no entry in the version mapping adds no
  row and raises no error, and the run over the other instances is what it is without
  that instance.
\<close>

theorem unwatched_instance_skipped:
  assumes "parsedImageTags (RefName (Image_ref instance)) = None"
  shows "run_loop newVersion cmp str parsedImageTags table [instance] = Returned table
       \<and> run_loop newVersion cmp str parsedImageTags table (before @ instance # after)
           = run_loop newVersion cmp str parsedImageTags table (before @ after)"
  using run_loop_skip [where parsedImageTags = parsedImageTags and before = "[]" and after = "[]",
      OF assms, of newVersion cmp str table]
    run_loop_skip [where parsedImageTags = parsedImageTags and before = before and after = after,
      OF assms, of newVersion cmp str table]
  by simp

theorem unwatched_instance_skipped_witness:
  "[''docker.io/library/app'' \<mapsto> [(1, 0, 0), (1, 2, 0)]] (RefName (Image_ref cacheTask)) = None
   \<and> run_loop dottedNewVersion dottedCompare dottedString
        [''docker.io/library/app'' \<mapsto> [(1, 0, 0), (1, 2, 0)]] [] [cacheTask] = Returned []
   \<and> run_loop dottedNewVersion dottedCompare dottedString
        [''docker.io/library/app'' \<mapsto> [(1, 0, 0), (1, 2, 0)]] []
        ([webTask ''1.0.0''] @ cacheTask # [webTask ''1.2.0''])
     = run_loop dottedNewVersion dottedCompare dottedString
        [''docker.io/library/app'' \<mapsto> [(1, 0, 0), (1, 2, 0)]] []
        ([webTask ''1.0.0''] @ [webTask ''1.2.0''])"
proof -
  have h: "[''docker.io/library/app'' \<mapsto> [(1 :: nat, 0 :: nat, 0 :: nat), (1, 2, 0)]]
      (RefName (Image_ref cacheTask)) = None"
    by (simp add: cacheTask_def)
  from unwatched_instance_skipped
      [of "[''docker.io/library/app'' \<mapsto> [(1, 0, 0), (1, 2, 0)]]" cacheTask
         dottedNewVersion dottedCompare dottedString "[]"
         "[webTask ''1.0.0'']" "[webTask ''1.2.0'']", OF h] h
  show ?thesis by (simp add: small_run)
qed

text \<open>
  Claim C5. Every row the loop appends belongs to a watched instance, and its last
  column is \<open>true\<close> exactly when the newest version of the image is strictly greater
  than the parsed running version; when the two compare equal it is \<open>false\<close>.
\<close>

theorem updateAvailable_strictly_greater:
  assumes "run_loop newVersion cmp str parsedImageTags [] instances = Returned rows"
  shows "list_all2 (reported newVersion cmp str parsedImageTags)
           (filter (\<lambda>i. parsedImageTags (RefName (Image_ref i)) \<noteq> None) instances) rows
       \<and> (\<forall>r \<in> set rows. \<exists>i \<in> set instances. \<exists>versions latest current.
             parsedImageTags (RefName (Image_ref i)) = Some versions
             \<and> getNewestVersion cmp versions = Some latest
             \<and> newVersion (RefTag (Image_ref i)) = Inr current
             \<and> r = row str i latest current (cmp latest current > 0)
             \<and> (r ! 7 = ''true'' \<longleftrightarrow> cmp latest current > 0)
             \<and> (cmp latest current = 0 \<longrightarrow> r ! 7 = ''false''))"
proof -
  let ?watched = "filter (\<lambda>i. parsedImageTags (RefName (Image_ref i)) \<noteq> None) instances"
  from run_loop_rows [OF assms]
  have all: "list_all2 (reported newVersion cmp str parsedImageTags) ?watched rows"
    by simp
  have "\<exists>i \<in> set instances. \<exists>versions latest current.
             parsedImageTags (RefName (Image_ref i)) = Some versions
             \<and> getNewestVersion cmp versions = Some latest
             \<and> newVersion (RefTag (Image_ref i)) = Inr current
             \<and> r = row str i latest current (cmp latest current > 0)
             \<and> (r ! 7 = ''true'' \<longleftrightarrow> cmp latest current > 0)
             \<and> (cmp latest current = 0 \<longrightarrow> r ! 7 = ''false'')" if "r \<in> set rows" for r
  proof -
    from that obtain k where k: "k < length rows" "rows ! k = r"
      by (auto simp: in_set_conv_nth)
    from all have len: "length ?watched = length rows"
      by (rule list_all2_lengthD)
    define i where "i = ?watched ! k"
    from k len have i: "i \<in> set ?watched"
      unfolding i_def by (simp del: set_filter)
    from list_all2_nthD2 [OF all k(1)] k(2)
    have rep: "reported newVersion cmp str parsedImageTags i r"
      by (simp add: i_def)
    from rep obtain versions latest current where f:
      "parsedImageTags (RefName (Image_ref i)) = Some versions"
      "getNewestVersion cmp versions = Some latest"
      "newVersion (RefTag (Image_ref i)) = Inr current"
      "r = row str i latest current (cmp latest current > 0)"
      unfolding reported_def by blast
    have "r ! 7 = FormatBool (cmp latest current > 0)"
      by (simp add: f(4) row_def)
    then have "(r ! 7 = ''true'' \<longleftrightarrow> cmp latest current > 0)"
      "(cmp latest current = 0 \<longrightarrow> r ! 7 = ''false'')"
      by (simp_all add: FormatBool_def)
    moreover from i have "i \<in> set instances" by simp
    ultimately show ?thesis using f by blast
  qed
  with all show ?thesis by blast
qed

theorem updateAvailable_strictly_greater_witness:
  "run_loop dottedNewVersion dottedCompare dottedString
     [''docker.io/library/app'' \<mapsto> [(1, 0, 0), (1, 2, 0)]] []
     [webTask ''1.0.0'', cacheTask, webTask ''1.2.0'']
   = Returned
      [[''default'', ''web'', ''frontend'', ''server'', ''docker.io/library/app'',
        ''1.2.0'', ''1.0.0'', ''true''],
       [''default'', ''web'', ''frontend'', ''server'', ''docker.io/library/app'',
        ''1.2.0'', ''1.2.0'', ''false'']]
   \<and> list_all2 (reported dottedNewVersion dottedCompare dottedString
        [''docker.io/library/app'' \<mapsto> [(1, 0, 0), (1, 2, 0)]])
      [webTask ''1.0.0'', webTask ''1.2.0'']
      [[''default'', ''web'', ''frontend'', ''server'', ''docker.io/library/app'',
        ''1.2.0'', ''1.0.0'', ''true''],
       [''default'', ''web'', ''frontend'', ''server'', ''docker.io/library/app'',
        ''1.2.0'', ''1.2.0'', ''false'']]"
proof -
  have r: "run_loop dottedNewVersion dottedCompare dottedString
     [''docker.io/library/app'' \<mapsto> [(1, 0, 0), (1, 2, 0)]] []
     [webTask ''1.0.0'', cacheTask, webTask ''1.2.0'']
   = Returned
      [[''default'', ''web'', ''frontend'', ''server'', ''docker.io/library/app'',
        ''1.2.0'', ''1.0.0'', ''true''],
       [''default'', ''web'', ''frontend'', ''server'', ''docker.io/library/app'',
        ''1.2.0'', ''1.2.0'', ''false'']]"
    by (simp add: small_run)
  from updateAvailable_strictly_greater [OF r] r show ?thesis
    by (simp add: webTask_def cacheTask_def)
qed

text \<open>
  Claim C1, at a concrete run. The configuration watches \<open>app\<close> and keeps the tags that
  contain \<open>1.\<close>; the registry lists the tags \<open>2.0.0\<close> and \<open>latest\<close>, so no tag is kept
  and the image maps to no version. For a task running \<open>app\<close> the loop does not skip
  the image: it calls \<open>getNewestVersion\<close> on the empty sequence, gets nil, and the
  comparison on the nil pointer panics.
\<close>

theorem run_panics_on_empty_versions:
  "getImageVersionMapping inOrder inOrder (registry (Inr [''2.0.0'', ''latest'']) (Inl ''NAME_UNKNOWN''))
       containsLiteral dottedNewVersion (Images (appConfig ''docker.io/library/app''))
     = Returned [''docker.io/library/app'' \<mapsto> ([] :: dotted list)]
   \<and> getNewestVersion dottedCompare [] = None
   \<and> run_loop dottedNewVersion dottedCompare dottedString
         [''docker.io/library/app'' \<mapsto> []] [] [webTask ''1.0.0''] = Panicked
   \<and> run (smallWorld (appConfig ''app'') (registry (Inr [''2.0.0'', ''latest'']) (Inl ''NAME_UNKNOWN''))
         (scheduler [] [webTask ''1.0.0''])) = Panicked"
  by (simp add: small_run)

text \<open>
  Claim C7 as stated fails. A task whose image is not watched is skipped before its
  tag is parsed: with the tag \<open>latest\<close>, which does not parse, the run still renders
  the table.
\<close>

theorem unparsable_tag_counterexample:
  "isl (dottedNewVersion (RefTag (Image_ref cacheTask)))
   \<and> run (smallWorld (appConfig ''app'') (registry appTags (Inl ''NAME_UNKNOWN''))
        (scheduler [] [cacheTask, webTask ''1.0.0'']))
     = Returned [header,
         [''default'', ''web'', ''frontend'', ''server'', ''docker.io/library/app'',
          ''1.2.0'', ''1.0.0'', ''true'']]"
  by (simp add: small_run)

text \<open>
  Claim C7, amended. When no watched image maps to an empty version sequence and some
  instance of a watched image has a running tag that does not parse, the run returns
  the parse error of the first such instance and renders no table, whatever rows the
  loop had appended before.
\<close>

theorem unparsable_watched_tag_fails:
  assumes "parseConfigFile (DecodeFile w) (Normalize w) ''./config.toml'' = Inr conf"
    and "NewClient w (Server conf) = Inr nomadClient"
    and "getImageVersionMapping (Finish w) (Visit w) (ListTags w) (MatchString w)
           (NewVersion w) (Images conf) = Returned parsedImageTags"
    and "getAllInstances (SortSlice w) (GetInstances w nomadClient) (Namespaces conf)
           = Returned instances"
    and "\<forall>n. parsedImageTags n \<noteq> Some []"
    and "instance \<in> set instances"
    and "unparsable (NewVersion w) parsedImageTags instance"
  shows "\<exists>before i after err. instances = before @ i # after
           \<and> (\<forall>j \<in> set before. \<not> unparsable (NewVersion w) parsedImageTags j)
           \<and> parsedImageTags (RefName (Image_ref i)) \<noteq> None
           \<and> NewVersion w (RefTag (Image_ref i)) = Inl err
           \<and> run w = Failed (External err)"
proof -
  from assms(6,7) have "\<exists>i \<in> set instances. unparsable (NewVersion w) parsedImageTags i"
    by blast
  from run_loop_fails [OF assms(5) this, of "Compare w" "VersionString w" "[]"]
  obtain before i after err where f: "instances = before @ i # after"
    "\<forall>j \<in> set before. \<not> unparsable (NewVersion w) parsedImageTags j"
    "parsedImageTags (RefName (Image_ref i)) \<noteq> None"
    "NewVersion w (RefTag (Image_ref i)) = Inl err"
    and l: "run_loop (NewVersion w) (Compare w) (VersionString w) parsedImageTags [] instances
        = Failed (External err)"
    by blast
  have "run w = Failed (External err)"
    by (simp add: run_def assms(1-4) l)
  with f show ?thesis by blast
qed

theorem unparsable_watched_tag_fails_witness:
  "run (smallWorld (appConfig ''app'') (registry appTags (Inl ''NAME_UNKNOWN''))
        (scheduler [] [webTask ''latest'', webTask ''1.0.0'']))
     = Failed (External ''Malformed version: latest'')"
proof -
  let ?w = "smallWorld (appConfig ''app'') (registry appTags (Inl ''NAME_UNKNOWN''))
        (scheduler [] [webTask ''latest'', webTask ''1.0.0''])"
  let ?pm = "[''docker.io/library/app'' \<mapsto> [(1 :: nat, 0 :: nat, 0 :: nat), (1, 2, 0)]]"
  have h1: "parseConfigFile (DecodeFile ?w) (Normalize ?w) ''./config.toml''
      = Inr (appConfig ''docker.io/library/app'')"
    by (simp add: small_run)
  have h2: "NewClient ?w (Server (appConfig ''docker.io/library/app'')) = Inr ()"
    by (simp add: small_run)
  have h3: "getImageVersionMapping (Finish ?w) (Visit ?w) (ListTags ?w) (MatchString ?w)
           (NewVersion ?w) (Images (appConfig ''docker.io/library/app'')) = Returned ?pm"
    by (simp add: small_run numeral_2_eq_2)
  have h4: "getAllInstances (SortSlice ?w) (GetInstances ?w ())
      (Namespaces (appConfig ''docker.io/library/app''))
      = Returned [webTask ''1.0.0'', webTask ''latest'']"
    by (simp add: small_run)
  have h5: "\<forall>n. ?pm n \<noteq> Some []" by simp
  have h6: "webTask ''latest'' \<in> set [webTask ''1.0.0'', webTask ''latest'']" by simp
  have h7: "unparsable (NewVersion ?w) ?pm (webTask ''latest'')"
    by (simp add: unparsable_def small_run)
  from unparsable_watched_tag_fails [OF h1 h2 h3 h4 h5 h6 h7]
  obtain before i after err where
    "[webTask ''1.0.0'', webTask ''latest''] = before @ i # after"
    "\<forall>j \<in> set before. \<not> unparsable (NewVersion ?w) ?pm j"
    "NewVersion ?w (RefTag (Image_ref i)) = Inl err"
    and r: "run ?w = Failed (External err)" by blast
  moreover have "run ?w = Failed (External ''Malformed version: latest'')"
    by (simp add: small_run)
  ultimately show ?thesis by simp
qed

section \<open>Properties of the instance order\<close>

lemma sortInstances_less_key: "sortInstances_less a b \<longleftrightarrow> instance_key b < instance_key a"
  by (auto simp: sortInstances_less_def instance_key_def)

lemma mset_insertSorted: "mset (insertSorted less' x xs) = add_mset x (mset xs)"
  by (induction xs) auto

lemma mset_insertionSort: "mset (insertionSort less' xs) = mset xs"
  by (induction xs) (auto simp: mset_insertSorted)

lemma set_insertSorted: "set (insertSorted less' x xs) = insert x (set xs)"
  using mset_insertSorted [of less' x xs] by (metis set_mset_add_mset_insert set_mset_mset)

lemma sorted_insertSorted:
  fixes key :: "'a \<Rightarrow> 'k :: linorder"
  assumes "\<And>a b. less' a b \<longleftrightarrow> key b < key a"
  shows "sorted_wrt (\<lambda>a b. \<not> less' b a) xs \<Longrightarrow> sorted_wrt (\<lambda>a b. \<not> less' b a) (insertSorted less' x xs)"
  by (induction xs) (auto simp: set_insertSorted assms)

lemma sorted_insertionSort:
  fixes key :: "'a \<Rightarrow> 'k :: linorder"
  assumes "\<And>a b. less' a b \<longleftrightarrow> key b < key a"
  shows "sorted_wrt (\<lambda>a b. \<not> less' b a) (insertionSort less' xs)"
  by (induction xs) (auto intro: sorted_insertSorted [OF assms])

lemma sorts_by_insertionSort: "sorts_by insertionSort sortInstances_less"
  unfolding sorts_by_def
  using sorted_insertionSort [of sortInstances_less instance_key, OF sortInstances_less_key]
  by (simp add: mset_insertionSort)

lemma descending_unique:
  fixes xs ys :: "'k :: linorder list"
  assumes "sorted_wrt (\<lambda>a b. b \<le> a) xs" and "sorted_wrt (\<lambda>a b. b \<le> a) ys" and "mset xs = mset ys"
  shows "xs = ys"
proof -
  have "sorted (rev xs)" "sorted (rev ys)"
    using assms(1,2) by (simp_all add: sorted_wrt_rev)
  moreover have "mset (rev xs) = mset (rev ys)" using assms(3) by simp
  ultimately have "rev xs = rev ys"
    by (metis properties_for_sort)
  then show ?thesis by simp
qed

lemma getAllInstances_sorted:
  assumes "sorts_by sortSlice sortInstances_less"
    and "getAllInstances sortSlice getInstances namespaces = Returned result"
  shows "sorted_wrt (\<lambda>a b. instance_key b \<le> instance_key a) result"
proof -
  from assms(2) obtain allInstances where "result = sortSlice sortInstances_less allInstances"
    by (auto simp: getAllInstances_def sortInstances_def split: outcome.splits)
  with assms(1) have "sorted_wrt (\<lambda>a b. \<not> sortInstances_less b a) result"
    by (simp add: sorts_by_def)
  then show ?thesis by (simp add: sortInstances_less_key not_less)
qed

lemma getAllInstances_loop_gathers:
  "getAllInstances_loop getInstances allInstances namespaces = Returned result \<Longrightarrow>
     \<exists>lists. list_all2 (\<lambda>namespace found. getInstances namespace = Returned found) namespaces lists
       \<and> result = allInstances @ concat lists"
proof (induction namespaces arbitrary: allInstances)
  case Nil
  then show ?case by simp
next
  case (Cons namespace namespaces)
  from Cons.prems obtain found where i: "getInstances namespace = Returned found"
    and r: "getAllInstances_loop getInstances (allInstances @ found) namespaces = Returned result"
    by (auto split: outcome.splits)
  from Cons.IH [OF r] obtain lists where
    "list_all2 (\<lambda>namespace found. getInstances namespace = Returned found) namespaces lists"
    "result = (allInstances @ found) @ concat lists" by blast
  with i have "list_all2 (\<lambda>namespace found. getInstances namespace = Returned found)
      (namespace # namespaces) (found # lists) \<and> result = allInstances @ concat (found # lists)"
    by simp
  then show ?case by blast
qed

lemma reported_key: "reported newVersion cmp str parsedImageTags i r \<Longrightarrow> row_key r = instance_key i"
  by (auto simp: reported_def row_def row_key_def instance_key_def)

lemma list_all2_map_eq: "list_all2 (\<lambda>x y. f x = g y) xs ys \<Longrightarrow> map f xs = map g ys"
  by (induction xs ys rule: list_all2_induct) simp_all

text \<open>
  Claim C8. When \<^verbatim>\<open>sort.Slice\<close> sorts by the comparison of \<open>sortInstances\<close>, the
  instances \<open>getAllInstances\<close> returns are the instances of all namespaces, and they,
  and the rows the loop appends for them, are in descending order of namespace, then
  job, then group, then task. Two gatherings of the same instances, in whatever order
  they were enumerated, give the same sequence of keys.
\<close>

theorem rows_descending:
  assumes "sorts_by sortSlice sortInstances_less"
    and "getAllInstances sortSlice getInstances namespaces = Returned instances"
    and "run_loop newVersion cmp str parsedImageTags [] instances = Returned rows"
  shows "(\<exists>lists. list_all2 (\<lambda>namespace found. getInstances namespace = Returned found)
                   namespaces lists
                 \<and> mset instances = mset (concat lists))
       \<and> sorted_wrt (\<lambda>a b. instance_key b \<le> instance_key a) instances
       \<and> sorted_wrt (\<lambda>r r'. row_key r' \<le> row_key r) rows
       \<and> (getAllInstances sortSlice getInstances' namespaces' = Returned instances'
            \<and> mset instances' = mset instances \<longrightarrow>
            map instance_key instances' = map instance_key instances)"
proof (intro conjI impI)
  from assms(2) obtain allInstances
    where g: "getAllInstances_loop getInstances [] namespaces = Returned allInstances"
      and i: "instances = sortSlice sortInstances_less allInstances"
    by (auto simp: getAllInstances_def sortInstances_def split: outcome.splits)
  from getAllInstances_loop_gathers [OF g] obtain lists where
    l: "list_all2 (\<lambda>namespace found. getInstances namespace = Returned found) namespaces lists"
    and c: "allInstances = concat lists"
    by auto
  from assms(1) i c have "mset instances = mset (concat lists)"
    by (simp add: sorts_by_def)
  with l show "\<exists>lists. list_all2 (\<lambda>namespace found. getInstances namespace = Returned found)
                   namespaces lists
                 \<and> mset instances = mset (concat lists)"
    by blast
  show s: "sorted_wrt (\<lambda>a b. instance_key b \<le> instance_key a) instances"
    by (rule getAllInstances_sorted [OF assms(1,2)])
  let ?watched = "filter (\<lambda>i. parsedImageTags (RefName (Image_ref i)) \<noteq> None) instances"
  from run_loop_rows [OF assms(3)]
  have "list_all2 (reported newVersion cmp str parsedImageTags) ?watched rows" by simp
  then have "list_all2 (\<lambda>i r. instance_key i = row_key r) ?watched rows"
    by (rule list_all2_mono) (simp add: reported_key)
  then have keys: "map instance_key ?watched = map row_key rows"
    by (rule list_all2_map_eq)
  from s have "sorted_wrt (\<lambda>a b. instance_key b \<le> instance_key a) ?watched"
    by (rule sorted_wrt_filter)
  then have "sorted_wrt (\<lambda>a b. b \<le> a) (map instance_key ?watched)"
    by (simp add: sorted_wrt_map)
  with keys show "sorted_wrt (\<lambda>r r'. row_key r' \<le> row_key r) rows"
    by (simp add: sorted_wrt_map)
next
  assume a: "getAllInstances sortSlice getInstances' namespaces' = Returned instances'
            \<and> mset instances' = mset instances"
  then have "sorted_wrt (\<lambda>a b. instance_key b \<le> instance_key a) instances'"
    using getAllInstances_sorted [OF assms(1)] by blast
  then have 1: "sorted_wrt (\<lambda>a b. b \<le> a) (map instance_key instances')"
    by (simp add: sorted_wrt_map)
  from getAllInstances_sorted [OF assms(1,2)]
  have 2: "sorted_wrt (\<lambda>a b. b \<le> a) (map instance_key instances)"
    by (simp add: sorted_wrt_map)
  from a have "mset (map instance_key instances') = mset (map instance_key instances)"
    by simp
  from descending_unique [OF 1 2 this]
  show "map instance_key instances' = map instance_key instances" .
qed

theorem rows_descending_witness:
  "getAllInstances insertionSort (scheduler [batchTask] [cacheTask, webTask ''1.0.0'']) [''batch'', ''default'']
     = Returned [webTask ''1.0.0'', cacheTask, batchTask]
   \<and> run_loop dottedNewVersion dottedCompare dottedString
        [''docker.io/library/app'' \<mapsto> [(1, 0, 0), (1, 2, 0)]] []
        [webTask ''1.0.0'', cacheTask, batchTask]
     = Returned
        [[''default'', ''web'', ''frontend'', ''server'', ''docker.io/library/app'',
          ''1.2.0'', ''1.0.0'', ''true''],
         [''batch'', ''report'', ''nightly'', ''render'', ''docker.io/library/app'',
          ''1.2.0'', ''1.2.0'', ''false'']]
   \<and> sorted_wrt (\<lambda>r r'. row_key r' \<le> row_key r)
        [[''default'', ''web'', ''frontend'', ''server'', ''docker.io/library/app'',
          ''1.2.0'', ''1.0.0'', ''true''],
         [''batch'', ''report'', ''nightly'', ''render'', ''docker.io/library/app'',
          ''1.2.0'', ''1.2.0'', ''false'']]
   \<and> map instance_key [webTask ''1.0.0'', cacheTask, batchTask]
     = [(''default'', ''web'', ''frontend'', ''server''),
        (''default'', ''cache'', ''backend'', ''redis''),
        (''batch'', ''report'', ''nightly'', ''render'')]"
proof -
  have g: "getAllInstances insertionSort (scheduler [batchTask] [cacheTask, webTask ''1.0.0'']) [''batch'', ''default'']
     = Returned [webTask ''1.0.0'', cacheTask, batchTask]"
    by (simp add: small_run)
  have r: "run_loop dottedNewVersion dottedCompare dottedString
        [''docker.io/library/app'' \<mapsto> [(1, 0, 0), (1, 2, 0)]] []
        [webTask ''1.0.0'', cacheTask, batchTask]
     = Returned
        [[''default'', ''web'', ''frontend'', ''server'', ''docker.io/library/app'',
          ''1.2.0'', ''1.0.0'', ''true''],
         [''batch'', ''report'', ''nightly'', ''render'', ''docker.io/library/app'',
          ''1.2.0'', ''1.2.0'', ''false'']]"
    by (simp add: small_run)
  have k: "map instance_key [webTask ''1.0.0'', cacheTask, batchTask]
     = [(''default'', ''web'', ''frontend'', ''server''),
        (''default'', ''cache'', ''backend'', ''redis''),
        (''batch'', ''report'', ''nightly'', ''render'')]"
    by (simp add: instance_key_def small_run)
  from rows_descending [OF sorts_by_insertionSort g r] g r k show ?thesis
    by (simp add: row_key_def)
qed

section \<open>Properties of the configuration\<close>

lemma rename_eq:
  "Include w' = Include w \<Longrightarrow> Exclude w' = Exclude w \<Longrightarrow>
     w'\<lparr>Name := n\<rparr> = (w\<lparr>Name := n\<rparr> :: 'r WatchedImage)"
  by (cases w, cases w') simp

lemma parseConfigFile_loop_same:
  "list_all2 (same_watch normalizeName) images images' \<Longrightarrow>
     parseConfigFile_loop normalizeName done images' = parseConfigFile_loop normalizeName done images"
proof (induction images images' arbitrary: "done" rule: list_all2_induct)
  case Nil
  then show ?case by simp
next
  case (Cons w ws w' ws')
  from Cons.hyps(1) have n: "normalizeName (Name w) = Inr (Name w')"
    "normalizeName (Name w') = Inr (Name w')"
    and f: "Include w' = Include w" "Exclude w' = Exclude w"
    by (simp_all add: same_watch_def canonical_of_def)
  show ?case
    by (simp add: n rename_eq [OF f] Cons.IH)
qed

lemma parseConfigFile_loop_names:
  "parseConfigFile_loop normalizeName done images = Inr result \<Longrightarrow>
     \<exists>rest. result = done @ rest
       \<and> list_all2 (\<lambda>w w'. normalizeName (Name w) = Inr (Name w')) images rest"
proof (induction images arbitrary: "done")
  case Nil
  then show ?case by simp
next
  case (Cons w ws)
  from Cons.prems obtain normName where n: "normalizeName (Name w) = Inr normName"
    and r: "parseConfigFile_loop normalizeName (done @ [w\<lparr>Name := normName\<rparr>]) ws = Inr result"
    by (auto split: sum.splits)
  from Cons.IH [OF r] obtain rest where "result = (done @ [w\<lparr>Name := normName\<rparr>]) @ rest"
    "list_all2 (\<lambda>w w'. normalizeName (Name w) = Inr (Name w')) ws rest" by blast
  with n have "result = done @ (w\<lparr>Name := normName\<rparr> # rest)
     \<and> list_all2 (\<lambda>w w'. normalizeName (Name w) = Inr (Name w')) (w # ws) (w\<lparr>Name := normName\<rparr> # rest)"
    by simp
  then show ?case by blast
qed

lemma parseConfigFile_same:
  assumes "decodeFile path = Inr conf" and "decodeFile' path = Inr conf'"
    and "Server conf' = Server conf" and "Namespaces conf' = Namespaces conf"
    and "list_all2 (same_watch normalizeName) (Images conf) (Images conf')"
  shows "parseConfigFile decodeFile' normalizeName path = parseConfigFile decodeFile normalizeName path"
proof -
  have "conf'\<lparr>Images := images\<rparr> = conf\<lparr>Images := images\<rparr>" for images
    using assms(3,4) by (cases conf, cases conf') simp
  then show ?thesis
    by (simp add: parseConfigFile_def assms(1,2) parseConfigFile_loop_same [OF assms(5)]
        split: sum.splits)
qed

lemma parseConfigFile_names:
  assumes "parseConfigFile decodeFile normalizeName path = Inr parsed"
  shows "\<exists>conf. decodeFile path = Inr conf
           \<and> list_all2 (\<lambda>w w'. normalizeName (Name w) = Inr (Name w')) (Images conf) (Images parsed)"
proof -
  from assms obtain conf images where c: "decodeFile path = Inr conf"
    and l: "parseConfigFile_loop normalizeName [] (Images conf) = Inr images"
    and p: "parsed = conf\<lparr>Images := images\<rparr>"
    by (auto simp: parseConfigFile_def split: sum.splits)
  from parseConfigFile_loop_names [OF l] c p show ?thesis by auto
qed

lemma run_cong:
  assumes "parseConfigFile (DecodeFile w') (Normalize w') ''./config.toml''
         = parseConfigFile (DecodeFile w) (Normalize w) ''./config.toml''"
    and "w' = w\<lparr>DecodeFile := d\<rparr>"
  shows "run w' = run w"
proof -
  from assms have "parseConfigFile d (Normalize w) ''./config.toml''
         = parseConfigFile (DecodeFile w) (Normalize w) ''./config.toml''"
    by simp
  then show ?thesis
    by (simp add: run_def assms(2) split: sum.splits outcome.splits)
qed

text \<open>
  Claim C10. Every key of the version mapping is the normalized form of a configured
  name. A configuration that names an image by its canonical form is parsed to the
  same configuration as one that names it by a raw form, so the whole run, with every
  lookup of the loop, is the same.
\<close>

theorem canonical_name_same_run:
  assumes "DecodeFile w ''./config.toml'' = Inr conf"
    and "DecodeFile w' ''./config.toml'' = Inr conf'"
    and "w' = w\<lparr>DecodeFile := DecodeFile w'\<rparr>"
    and "Server conf' = Server conf" and "Namespaces conf' = Namespaces conf"
    and "list_all2 (same_watch (Normalize w)) (Images conf) (Images conf')"
  shows "parseConfigFile (DecodeFile w') (Normalize w') ''./config.toml''
           = parseConfigFile (DecodeFile w) (Normalize w) ''./config.toml''
       \<and> run w' = run w
       \<and> (parseConfigFile (DecodeFile w) (Normalize w) ''./config.toml'' = Inr parsed
            \<and> getImageVersionMapping (Finish w) (Visit w) (ListTags w) (MatchString w)
                 (NewVersion w) (Images parsed) = Returned parsedImageTags \<longrightarrow>
            (\<forall>key \<in> dom parsedImageTags.
               \<exists>watched \<in> set (Images conf). Normalize w (Name watched) = Inr key))"
proof (intro conjI impI)
  have "Normalize (w\<lparr>DecodeFile := DecodeFile w'\<rparr>) = Normalize w" by simp
  with assms(3) have n: "Normalize w' = Normalize w" by simp
  show p: "parseConfigFile (DecodeFile w') (Normalize w') ''./config.toml''
           = parseConfigFile (DecodeFile w) (Normalize w) ''./config.toml''"
    unfolding n
    by (rule parseConfigFile_same [where decodeFile = "DecodeFile w" and decodeFile' = "DecodeFile w'"
          and path = "''./config.toml''", OF assms(1,2,4,5,6)])
  show "run w' = run w"
    by (rule run_cong [OF p assms(3)])
next
  assume a: "parseConfigFile (DecodeFile w) (Normalize w) ''./config.toml'' = Inr parsed
            \<and> getImageVersionMapping (Finish w) (Visit w) (ListTags w) (MatchString w)
                 (NewVersion w) (Images parsed) = Returned parsedImageTags"
  then have d: "dom parsedImageTags = Name ` set (Images parsed)"
    using getImageVersionMapping_returns(1) by blast
  from a parseConfigFile_names [of "DecodeFile w" "Normalize w" "''./config.toml''" parsed] assms(1)
  have l: "list_all2 (\<lambda>w0 w1. Normalize w (Name w0) = Inr (Name w1)) (Images conf) (Images parsed)"
    by auto
  show "\<forall>key \<in> dom parsedImageTags.
               \<exists>watched \<in> set (Images conf). Normalize w (Name watched) = Inr key"
  proof
    fix key assume "key \<in> dom parsedImageTags"
    with d obtain w1 where w1: "w1 \<in> set (Images parsed)" "key = Name w1" by auto
    from w1(1) obtain k where k: "k < length (Images parsed)" "Images parsed ! k = w1"
      by (auto simp: in_set_conv_nth)
    from list_all2_nthD2 [OF l k(1)] k(2)
    have "Normalize w (Name (Images conf ! k)) = Inr (Name w1)" by simp
    moreover from l k(1) have "Images conf ! k \<in> set (Images conf)"
      by (simp add: list_all2_lengthD)
    ultimately show "\<exists>watched \<in> set (Images conf). Normalize w (Name watched) = Inr key"
      using w1(2) by blast
  qed
qed

theorem canonical_name_same_run_witness:
  "canonical_of defaultRegistry ''app'' ''docker.io/library/app''
   \<and> run (smallWorld (appConfig ''docker.io/library/app'') (registry appTags (Inl ''NAME_UNKNOWN''))
         (scheduler [batchTask] [cacheTask, webTask ''1.0.0'']))
     = run (smallWorld (appConfig ''app'') (registry appTags (Inl ''NAME_UNKNOWN'')) (scheduler [batchTask] [cacheTask, webTask ''1.0.0'']))
   \<and> run (smallWorld (appConfig ''app'') (registry appTags (Inl ''NAME_UNKNOWN'')) (scheduler [batchTask] [cacheTask, webTask ''1.0.0'']))
     = Returned [header,
         [''default'', ''web'', ''frontend'', ''server'', ''docker.io/library/app'',
          ''1.2.0'', ''1.0.0'', ''true'']]"
proof -
  let ?w = "smallWorld (appConfig ''app'') (registry appTags (Inl ''NAME_UNKNOWN'')) (scheduler [batchTask] [cacheTask, webTask ''1.0.0''])"
  let ?w' = "smallWorld (appConfig ''docker.io/library/app'') (registry appTags (Inl ''NAME_UNKNOWN''))
         (scheduler [batchTask] [cacheTask, webTask ''1.0.0''])"
  have c: "canonical_of defaultRegistry ''app'' ''docker.io/library/app''"
    by (simp add: canonical_of_def defaultRegistry_def)
  have h1: "DecodeFile ?w ''./config.toml'' = Inr (appConfig ''app'')"
    by (simp add: smallWorld_def)
  have h2: "DecodeFile ?w' ''./config.toml'' = Inr (appConfig ''docker.io/library/app'')"
    by (simp add: smallWorld_def)
  have h3: "?w' = ?w\<lparr>DecodeFile := DecodeFile ?w'\<rparr>"
    by (simp add: smallWorld_def)
  have h4: "Server (appConfig ''docker.io/library/app'') = Server (appConfig ''app'')"
    and h5: "Namespaces (appConfig ''docker.io/library/app'') = Namespaces (appConfig ''app'')"
    by (simp_all add: appConfig_def)
  have h6: "list_all2 (same_watch (Normalize ?w)) (Images (appConfig ''app''))
      (Images (appConfig ''docker.io/library/app''))"
    using c by (simp add: smallWorld_def appConfig_def same_watch_def)
  have r: "run ?w = Returned [header,
         [''default'', ''web'', ''frontend'', ''server'', ''docker.io/library/app'',
          ''1.2.0'', ''1.0.0'', ''true'']]"
    by (simp add: small_run)
  from canonical_name_same_run [OF h1 h2 h3 h4 h5 h6] have e: "run ?w' = run ?w"
    by (rule conjunct1 [OF conjunct2])
  from c e r show ?thesis by (intro conjI)
qed

end
